theory Spec2Isabelle
  imports Main "HOL-Library.Word"
begin

section \<open>Data model of cppcodegen.h\<close>

text \<open>
  \<^verbatim>\<open>std::size_t\<close> is an unsigned machine integer; it is modelled as a 64-bit word, so
  that \<open>+\<close> wraps around as it does in the program. Strings are lists of characters.
\<close>

type_synonym size_t = "64 word"

definition kDefaultIndentSize :: size_t where
  "kDefaultIndentSize = 2"

datatype Type = kLine | kSystemInclude | kLocalInclude | kCodeBlock | kDefinition | kNamespace

datatype AccessSpecifier = kPublic | kProtected | kPrivate

subsection \<open>Indent\<close>

record Indent =
  Indent_level :: size_t
  Indent_size :: size_t
  Indent_character :: char
  Indent_indent_string :: string

text \<open>The constructor's loop \<^verbatim>\<open>while (index < size_) { indent_string_ += character_; index++; }\<close>.\<close>

function Indent_fill :: "size_t \<Rightarrow> size_t \<Rightarrow> char \<Rightarrow> string \<Rightarrow> string" where
  "Indent_fill index sz ch indent_string =
     (if index < sz then Indent_fill (index + 1) sz ch (indent_string @ [ch])
      else indent_string)"
  by pat_completeness auto

termination
proof (relation "measure (\<lambda>(index, sz, ch, s). unat sz - unat index)")
  fix index sz :: size_t and ch :: char and indent_string :: string
  assume "index < sz"
  then have "unat (index + 1) = Suc (unat index)" and "unat index < unat sz"
    by unat_arith+
  then show "((index + 1, sz, ch, indent_string @ [ch]), (index, sz, ch, indent_string))
      \<in> measure (\<lambda>(index, sz, ch, s). unat sz - unat index)"
    by simp
qed simp

declare Indent_fill.simps [simp del]

definition mk_Indent :: "size_t \<Rightarrow> size_t \<Rightarrow> char \<Rightarrow> Indent" where
  "mk_Indent level sz ch =
     \<lparr>Indent_level = level, Indent_size = sz, Indent_character = ch,
      Indent_indent_string = Indent_fill 0 sz ch []\<rparr>"

text \<open>The default argument \<^verbatim>\<open>Indent(0, kDefaultIndentSize)\<close> of every node constructor.\<close>

definition default_Indent :: Indent where
  "default_Indent = mk_Indent 0 kDefaultIndentSize (CHR '' '')"

text \<open>The loop of \<^verbatim>\<open>Indenting()\<close>: \<^verbatim>\<open>while (level < level_) { total_indent += indent_string_; level++; }\<close>.\<close>

function Indenting_loop :: "size_t \<Rightarrow> size_t \<Rightarrow> string \<Rightarrow> string \<Rightarrow> string" where
  "Indenting_loop level lim indent_string total_indent =
     (if level < lim then Indenting_loop (level + 1) lim indent_string (total_indent @ indent_string)
      else total_indent)"
  by pat_completeness auto
termination
proof (relation "measure (\<lambda>(level, lim, s, t). unat lim - unat level)")
  fix level lim :: size_t and indent_string total_indent :: string
  assume "level < lim"
  then have "unat (level + 1) = Suc (unat level)" and "unat level < unat lim"
    by unat_arith+
  then show "((level + 1, lim, indent_string, total_indent @ indent_string),
       (level, lim, indent_string, total_indent))
      \<in> measure (\<lambda>(level, lim, s, t). unat lim - unat level)"
    by simp
qed simp

declare Indenting_loop.simps [simp del]

definition Indenting :: "Indent \<Rightarrow> string" where
  "Indenting i = Indenting_loop 0 (Indent_level i) (Indent_indent_string i) []"

subsection \<open>Snippet\<close>

record Snippet =
  Snippet_indent :: Indent
  Snippet_header :: string
  Snippet_footer :: string
  Snippet_type :: Type
  Snippet_lines :: "string list"

text \<open>The three constructors, selected by their tag argument.\<close>

datatype Snippet_tag = LineType | SystemIncludeType | LocalIncludeType string

fun mk_Snippet :: "Snippet_tag \<Rightarrow> Indent \<Rightarrow> Snippet" where
  "mk_Snippet LineType indent =
     \<lparr>Snippet_indent = indent, Snippet_header = [], Snippet_footer = [],
      Snippet_type = kLine, Snippet_lines = []\<rparr>"
| "mk_Snippet SystemIncludeType indent =
     \<lparr>Snippet_indent = indent, Snippet_header = ''#include <'', Snippet_footer = ''>'',
      Snippet_type = kSystemInclude, Snippet_lines = []\<rparr>"
| "mk_Snippet (LocalIncludeType base_dir_path) indent =
     \<lparr>Snippet_indent = indent, Snippet_header = ''#include '' @ [CHR 0x22] @ base_dir_path,
      Snippet_footer = [CHR 0x22], Snippet_type = kLocalInclude, Snippet_lines = []\<rparr>"

definition Snippet_Out :: "Snippet \<Rightarrow> string" where
  "Snippet_Out sn =
     foldl (\<lambda>snippet line. snippet @ (Indenting (Snippet_indent sn) @ line @ ''\<newline>''))
       [] (Snippet_lines sn)"

definition Snippet_Add :: "Snippet \<Rightarrow> string \<Rightarrow> Snippet" where
  "Snippet_Add sn line =
     sn\<lparr>Snippet_lines := Snippet_lines sn @ [Snippet_header sn @ line @ Snippet_footer sn]\<rparr>"

text \<open>
  \<^verbatim>\<open>while (std::getline(line_stream, line)) lines_.emplace_back(line);\<close> The first
  argument is the line read so far. \<^verbatim>\<open>std::getline\<close> consumes the newline that ends a
  line, and fails, ending the loop, when it meets the end of the text before any character.
\<close>

fun getlines :: "string \<Rightarrow> string \<Rightarrow> string list" where
  "getlines line [] = (if line = [] then [] else [line])"
| "getlines line (c # cs) =
     (if c = CHR ''\<newline>'' then line # getlines [] cs else getlines (line @ [c]) cs)"

text \<open>The body of the template \<^verbatim>\<open>Snippet::Add<T>\<close>, given the text \<^verbatim>\<open>any.Out()\<close>.\<close>

definition Snippet_Add_Out :: "Snippet \<Rightarrow> string \<Rightarrow> Snippet" where
  "Snippet_Add_Out sn out = sn\<lparr>Snippet_lines := Snippet_lines sn @ getlines [] out\<rparr>"

definition Snippet_Add_lines :: "Snippet \<Rightarrow> string list \<Rightarrow> Snippet" where
  "Snippet_Add_lines sn lines = foldl Snippet_Add sn lines"

definition Snippet_IncrementIndent :: "Snippet \<Rightarrow> size_t \<Rightarrow> Snippet" where
  "Snippet_IncrementIndent sn level =
     sn\<lparr>Snippet_indent :=
          (Snippet_indent sn)\<lparr>Indent_level := Indent_level (Snippet_indent sn) + level\<rparr>\<rparr>"

subsection \<open>Block\<close>

record Block =
  Block_indent :: Indent
  Block_header :: string
  Block_footer :: string
  Block_type :: Type
  Block_snippets :: "Snippet list"

datatype Block_tag = CodeBlockType | DefinitionType string | NamespaceType string

fun mk_Block :: "Block_tag \<Rightarrow> Indent \<Rightarrow> Block" where
  "mk_Block CodeBlockType indent =
     \<lparr>Block_indent = indent, Block_header = ''{\<newline>'', Block_footer = ''}\<newline>'',
      Block_type = kCodeBlock, Block_snippets = []\<rparr>"
| "mk_Block (DefinitionType declaration) indent =
     \<lparr>Block_indent = indent, Block_header = declaration @ '' {\<newline>'',
      Block_footer = ''}\<newline>'', Block_type = kDefinition, Block_snippets = []\<rparr>"
| "mk_Block (NamespaceType name) indent =
     \<lparr>Block_indent = indent, Block_header = ''namespace '' @ name @ '' {\<newline>'',
      Block_footer = ''}\<newline>'', Block_type = kNamespace, Block_snippets = []\<rparr>"

definition Block_Out :: "Block \<Rightarrow> string" where
  "Block_Out b =
     foldl (\<lambda>block snippet. block @ Snippet_Out snippet)
       (Indenting (Block_indent b) @ Block_header b) (Block_snippets b)
     @ (Indenting (Block_indent b) @ Block_footer b)"

definition Block_IncrementIndent :: "Block \<Rightarrow> size_t \<Rightarrow> Block" where
  "Block_IncrementIndent b level =
     b\<lparr>Block_indent := (Block_indent b)\<lparr>Indent_level := Indent_level (Block_indent b) + level\<rparr>,
       Block_snippets := map (\<lambda>snippet. Snippet_IncrementIndent snippet level) (Block_snippets b)\<rparr>"

subsection \<open>Class\<close>

text \<open>
  The bucket map is an \<^verbatim>\<open>std::unordered_map\<close>: a partial map from access specifiers to
  snippet vectors. \<^verbatim>\<open>at\<close> throws on a missing key; inside a \<^verbatim>\<open>noexcept\<close> function
  that ends the program, which the model returns as \<open>None\<close>.
\<close>

record Class =
  Class_indent :: Indent
  Class_name :: string
  Class_header :: string
  Class_footer :: string
  Class_type :: Type
  Class_snippets :: "AccessSpecifier \<Rightarrow> Snippet list option"

definition mk_Class :: "string \<Rightarrow> Indent \<Rightarrow> Class" where
  "mk_Class name indent =
     \<lparr>Class_indent = indent, Class_name = name, Class_header = '' {\<newline>'',
      Class_footer = ''};\<newline>'', Class_type = kCodeBlock,
      Class_snippets = Map.empty(kPrivate \<mapsto> [], kPublic \<mapsto> [], kProtected \<mapsto> [])\<rparr>"

text \<open>
  One of the three \<^verbatim>\<open>if (!snippets_.at(access).empty()) { ... }\<close> statements of
  \<^verbatim>\<open>Class::Out\<close>, which differ in the key and the label only.
\<close>

definition Class_Out_bucket :: "Class \<Rightarrow> AccessSpecifier \<Rightarrow> string \<Rightarrow> string \<Rightarrow> string option" where
  "Class_Out_bucket c access label block =
     (case Class_snippets c access of
        None \<Rightarrow> None
      | Some snippets \<Rightarrow>
          Some (if snippets \<noteq> []
                then foldl (\<lambda>block snippet. block @ Snippet_Out snippet)
                       (block @ (Indenting (Class_indent c) @ label)) snippets
                else block))"

definition Class_Out :: "Class \<Rightarrow> string option" where
  "Class_Out c =
     (case Class_Out_bucket c kPublic '' public:\<newline>''
             (Indenting (Class_indent c) @ ''class '' @ Class_name c @ Class_header c) of
        None \<Rightarrow> None
      | Some block \<Rightarrow>
          (case Class_Out_bucket c kProtected '' protected:\<newline>'' block of
             None \<Rightarrow> None
           | Some block \<Rightarrow>
               (case Class_Out_bucket c kPrivate '' private:\<newline>'' block of
                  None \<Rightarrow> None
                | Some block \<Rightarrow> Some (block @ (Indenting (Class_indent c) @ Class_footer c)))))"

text \<open>The loop visits every entry of the map, whatever its key.\<close>

definition Class_IncrementIndent :: "Class \<Rightarrow> size_t \<Rightarrow> Class" where
  "Class_IncrementIndent c level =
     c\<lparr>Class_indent := (Class_indent c)\<lparr>Indent_level := Indent_level (Class_indent c) + level\<rparr>,
       Class_snippets := (\<lambda>access.
          map_option (map (\<lambda>snippet. Snippet_IncrementIndent snippet level))
            (Class_snippets c access))\<rparr>"

subsection \<open>The template parameter of Add\<close>

text \<open>
  The templates \<^verbatim>\<open>Add<T>\<close> take any \<^verbatim>\<open>T\<close> that has \<^verbatim>\<open>Out()\<close>, that is a node; and
  \<^verbatim>\<open>Block::Add<T>\<close> and \<^verbatim>\<open>Class::Add<T>\<close> also take a \<^verbatim>\<open>std::string\<close>, for which the
  call \<^verbatim>\<open>snippet_copy.Add(any)\<close> resolves to \<^verbatim>\<open>Snippet::Add(const std::string &)\<close>.
\<close>

datatype node = SnippetNode Snippet | BlockNode Block | ClassNode Class

datatype any = Str string | Obj node

fun node_Out :: "node \<Rightarrow> string option" where
  "node_Out (SnippetNode sn) = Some (Snippet_Out sn)"
| "node_Out (BlockNode b) = Some (Block_Out b)"
| "node_Out (ClassNode c) = Class_Out c"

fun Snippet_Add_any :: "Snippet \<Rightarrow> any \<Rightarrow> Snippet option" where
  "Snippet_Add_any sn (Str line) = Some (Snippet_Add sn line)"
| "Snippet_Add_any sn (Obj n) = map_option (Snippet_Add_Out sn) (node_Out n)"

definition Block_Add :: "Block \<Rightarrow> any \<Rightarrow> Block option" where
  "Block_Add b a =
     (case Snippet_Add_any
             (mk_Snippet LineType
                (mk_Indent (Indent_level (Block_indent b) + 1) (Indent_size (Block_indent b))
                   (CHR '' ''))) a of
        None \<Rightarrow> None
      | Some snippet_copy \<Rightarrow> Some (b\<lparr>Block_snippets := Block_snippets b @ [snippet_copy]\<rparr>))"

fun Block_Add_lines :: "Block \<Rightarrow> string list \<Rightarrow> Block option" where
  "Block_Add_lines b [] = Some b"
| "Block_Add_lines b (line # lines) =
     (case Block_Add b (Str line) of None \<Rightarrow> None | Some b' \<Rightarrow> Block_Add_lines b' lines)"

text \<open>\<^verbatim>\<open>snippets_[access_specifier]\<close> inserts an empty vector when the key is missing.\<close>

definition Class_Add :: "Class \<Rightarrow> any \<Rightarrow> AccessSpecifier \<Rightarrow> Class option" where
  "Class_Add c a access_specifier =
     (case Snippet_Add_any
             (mk_Snippet LineType
                (mk_Indent (Indent_level (Class_indent c) + 1) (Indent_size (Class_indent c))
                   (CHR '' ''))) a of
        None \<Rightarrow> None
      | Some snippet_copy \<Rightarrow>
          Some (c\<lparr>Class_snippets := (Class_snippets c)(access_specifier \<mapsto>
                  (case Class_snippets c access_specifier of None \<Rightarrow> [] | Some snippets \<Rightarrow> snippets)
                  @ [snippet_copy])\<rparr>))"

fun Class_Add_lines :: "Class \<Rightarrow> string list \<Rightarrow> AccessSpecifier \<Rightarrow> Class option" where
  "Class_Add_lines c [] access_specifier = Some c"
| "Class_Add_lines c (line # lines) access_specifier =
     (case Class_Add c (Str line) access_specifier of
        None \<Rightarrow> None
      | Some c' \<Rightarrow> Class_Add_lines c' lines access_specifier)"

subsection \<open>Sequences of calls\<close>

text \<open>
  A call of one of the mutating member functions. \<^verbatim>\<open>Snippet\<close> and \<^verbatim>\<open>Block\<close> have no
  access specifier parameter: they ignore the one of the call.
\<close>

datatype op = Add any AccessSpecifier | AddLines "string list" AccessSpecifier | IncrementIndent size_t

fun Snippet_apply :: "Snippet \<Rightarrow> op \<Rightarrow> Snippet option" where
  "Snippet_apply sn (Add a _) = Snippet_Add_any sn a"
| "Snippet_apply sn (AddLines lines _) = Some (Snippet_Add_lines sn lines)"
| "Snippet_apply sn (IncrementIndent level) = Some (Snippet_IncrementIndent sn level)"

fun Block_apply :: "Block \<Rightarrow> op \<Rightarrow> Block option" where
  "Block_apply b (Add a _) = Block_Add b a"
| "Block_apply b (AddLines lines _) = Block_Add_lines b lines"
| "Block_apply b (IncrementIndent level) = Some (Block_IncrementIndent b level)"

fun Class_apply :: "Class \<Rightarrow> op \<Rightarrow> Class option" where
  "Class_apply c (Add a access_specifier) = Class_Add c a access_specifier"
| "Class_apply c (AddLines lines access_specifier) = Class_Add_lines c lines access_specifier"
| "Class_apply c (IncrementIndent level) = Some (Class_IncrementIndent c level)"

fun node_apply :: "node \<Rightarrow> op \<Rightarrow> node option" where
  "node_apply (SnippetNode sn) call = map_option SnippetNode (Snippet_apply sn call)"
| "node_apply (BlockNode b) call = map_option BlockNode (Block_apply b call)"
| "node_apply (ClassNode c) call = map_option ClassNode (Class_apply c call)"

fun run :: "('s \<Rightarrow> op \<Rightarrow> 's option) \<Rightarrow> 's \<Rightarrow> op list \<Rightarrow> 's option" where
  "run step s [] = Some s"
| "run step s (call # calls) =
     (case step s call of None \<Rightarrow> None | Some s' \<Rightarrow> run step s' calls)"

subsection \<open>What a sequence of calls leaves in a node\<close>

text \<open>The lines that \<^verbatim>\<open>Add(any)\<close> stores in the snippet it builds around \<^verbatim>\<open>any\<close>.\<close>

fun any_lines :: "any \<Rightarrow> string list option" where
  "any_lines (Str line) = Some [line]"
| "any_lines (Obj n) = map_option (getlines []) (node_Out n)"

text \<open>
  The snippet that \<^verbatim>\<open>Block::Add\<close> and \<^verbatim>\<open>Class::Add\<close> build for a parent of the
  given level and unit width, once it holds the given lines.
\<close>

definition wrapping_Snippet :: "size_t \<Rightarrow> size_t \<Rightarrow> string list \<Rightarrow> Snippet" where
  "wrapping_Snippet parent_level sz lines =
     \<lparr>Snippet_indent = mk_Indent (parent_level + 1) sz (CHR '' ''),
      Snippet_header = [], Snippet_footer = [], Snippet_type = kLine, Snippet_lines = lines\<rparr>"

text \<open>A call can be made when the node it absorbs, if any, can be rendered.\<close>

fun op_renders :: "op \<Rightarrow> bool" where
  "op_renders (Add (Obj n) _) = (node_Out n \<noteq> None)"
| "op_renders _ = True"

text \<open>The line lists of the snippets a call appends, and the levels it adds.\<close>

fun added_lines :: "op \<Rightarrow> string list list" where
  "added_lines (Add a _) = (case any_lines a of None \<Rightarrow> [] | Some lines \<Rightarrow> [lines])"
| "added_lines (AddLines lines _) = map (\<lambda>line. [line]) lines"
| "added_lines (IncrementIndent _) = []"

fun increment :: "op \<Rightarrow> size_t" where
  "increment (IncrementIndent level) = level"
| "increment _ = 0"

fun targets :: "op \<Rightarrow> AccessSpecifier \<Rightarrow> bool" where
  "targets (Add _ access_specifier) access = (access_specifier = access)"
| "targets (AddLines _ access_specifier) access = (access_specifier = access)"
| "targets (IncrementIndent _) access = False"

definition total_increment :: "op list \<Rightarrow> size_t" where
  "total_increment calls = sum_list (map increment calls)"

definition children_lines :: "op list \<Rightarrow> string list list" where
  "children_lines calls = concat (map added_lines calls)"

definition bucket_lines :: "op list \<Rightarrow> AccessSpecifier \<Rightarrow> string list list" where
  "bucket_lines calls access = concat (map added_lines (filter (\<lambda>call. targets call access) calls))"

definition indent_after :: "Indent \<Rightarrow> op list \<Rightarrow> Indent" where
  "indent_after indent calls = indent\<lparr>Indent_level := Indent_level indent + total_increment calls\<rparr>"

abbreviation Block_wrap :: "Block \<Rightarrow> string list \<Rightarrow> Snippet" where
  "Block_wrap b \<equiv> wrapping_Snippet (Indent_level (Block_indent b)) (Indent_size (Block_indent b))"

abbreviation Class_wrap :: "Class \<Rightarrow> string list \<Rightarrow> Snippet" where
  "Class_wrap c \<equiv> wrapping_Snippet (Indent_level (Class_indent c)) (Indent_size (Class_indent c))"

text \<open>The invariant of the bucket map: the three keys of the constructor are present.\<close>

definition has_all_keys :: "Class \<Rightarrow> bool" where
  "has_all_keys c =
     (Class_snippets c kPublic \<noteq> None \<and> Class_snippets c kProtected \<noteq> None
      \<and> Class_snippets c kPrivate \<noteq> None)"

definition Class_bucket :: "Class \<Rightarrow> AccessSpecifier \<Rightarrow> Snippet list" where
  "Class_bucket c access =
     (case Class_snippets c access of None \<Rightarrow> [] | Some snippets \<Rightarrow> snippets)"

subsection \<open>The render of a Class in the words of the specification\<close>

text \<open>
  A bucket contributes nothing when it is empty, and otherwise its label line followed
  by the renders of its snippets in their order.
\<close>

definition spec_bucket :: "Indent \<Rightarrow> string \<Rightarrow> Snippet list \<Rightarrow> string" where
  "spec_bucket indent label snippets =
     (if snippets = [] then []
      else Indenting indent @ label @ concat (map Snippet_Out snippets))"

definition spec_Class_Render :: "Indent \<Rightarrow> string \<Rightarrow> (AccessSpecifier \<Rightarrow> Snippet list) \<Rightarrow> string" where
  "spec_Class_Render indent name buckets =
     Indenting indent @ ''class '' @ name @ '' {\<newline>''
     @ spec_bucket indent '' public:\<newline>'' (buckets kPublic)
     @ spec_bucket indent '' protected:\<newline>'' (buckets kProtected)
     @ spec_bucket indent '' private:\<newline>'' (buckets kPrivate)
     @ Indenting indent @ ''};\<newline>''"

subsection \<open>The nodes a program can build\<close>

text \<open>
  A node is built by a constructor and then changed by calls of its member functions;
  a node that a call absorbs has itself been built in this way.
\<close>

inductive reachable :: "node \<Rightarrow> bool" where
  new_Snippet: "reachable (SnippetNode (mk_Snippet tag indent))"
| new_Block: "reachable (BlockNode (mk_Block block_tag indent))"
| new_Class: "reachable (ClassNode (mk_Class name indent))"
| call_Add_text:
    "reachable n \<Longrightarrow> node_apply n (Add (Str text) access) = Some n' \<Longrightarrow> reachable n'"
| call_Add_node:
    "reachable n \<Longrightarrow> reachable m \<Longrightarrow> node_apply n (Add (Obj m) access) = Some n' \<Longrightarrow> reachable n'"
| call_AddLines:
    "reachable n \<Longrightarrow> node_apply n (AddLines lines access) = Some n' \<Longrightarrow> reachable n'"
| call_IncrementIndent:
    "reachable n \<Longrightarrow> node_apply n (IncrementIndent level) = Some n' \<Longrightarrow> reachable n'"

fun node_has_all_keys :: "node \<Rightarrow> bool" where
  "node_has_all_keys (ClassNode c) = has_all_keys c"
| "node_has_all_keys _ = True"

subsection \<open>Programs over several nodes\<close>

text \<open>
  The variables of a program hold nodes; a statement calls a member function of the
  node in one variable, and the argument of \<^verbatim>\<open>Add\<close> is a text or the node in a variable,
  passed by reference and read during the call. Nodes hold their snippets and lines by
  value (\<^verbatim>\<open>std::vector<Snippet>\<close>, \<^verbatim>\<open>std::vector<std::string>\<close>), so a call changes the
  node it is made on and nothing else.
\<close>

type_synonym addr = nat

type_synonym store = "addr \<Rightarrow> node"

datatype operand = Literal string | Ref addr

datatype stmt =
    Add_stmt addr operand AccessSpecifier
  | AddLines_stmt addr "string list" AccessSpecifier
  | IncrementIndent_stmt addr size_t

fun target :: "stmt \<Rightarrow> addr" where
  "target (Add_stmt x _ _) = x"
| "target (AddLines_stmt x _ _) = x"
| "target (IncrementIndent_stmt x _) = x"

fun stmt_op :: "store \<Rightarrow> stmt \<Rightarrow> op" where
  "stmt_op s (Add_stmt x (Literal line) access) = Add (Str line) access"
| "stmt_op s (Add_stmt x (Ref y) access) = Add (Obj (s y)) access"
| "stmt_op s (AddLines_stmt x lines access) = AddLines lines access"
| "stmt_op s (IncrementIndent_stmt x level) = IncrementIndent level"

definition exec :: "store \<Rightarrow> stmt \<Rightarrow> store option" where
  "exec s st =
     map_option (\<lambda>n'. s(target st := n')) (node_apply (s (target st)) (stmt_op s st))"

fun exec_all :: "store \<Rightarrow> stmt list \<Rightarrow> store option" where
  "exec_all s [] = Some s"
| "exec_all s (st # sts) = (case exec s st of None \<Rightarrow> None | Some s' \<Rightarrow> exec_all s' sts)"

section \<open>Indent\<close>

lemma unat_succ_below: "i < (n::size_t) \<Longrightarrow> unat (i + 1) = Suc (unat i)"
  by unat_arith

lemma Indent_fill_eq: "Indent_fill i n c s = s @ replicate (unat n - unat i) c"
proof (induction i n c s rule: Indent_fill.induct)
  case (1 i n c s)
  show ?case
  proof (cases "i < n")
    case True
    then have "unat n - unat i = Suc (unat n - unat (i + 1))"
      by (simp add: unat_succ_below word_less_nat_alt)
    with True 1 show ?thesis
      by (subst Indent_fill.simps) (simp add: replicate_app_Cons_same)
  next
    case False
    then show ?thesis
      by (subst Indent_fill.simps) (simp add: word_less_nat_alt)
  qed
qed

lemma Indenting_loop_eq:
  "Indenting_loop i n u t = t @ concat (replicate (unat n - unat i) u)"
proof (induction i n u t rule: Indenting_loop.induct)
  case (1 i n u t)
  show ?case
  proof (cases "i < n")
    case True
    then have "unat n - unat i = Suc (unat n - unat (i + 1))"
      by (simp add: unat_succ_below word_less_nat_alt)
    with True 1 show ?thesis
      by (subst Indenting_loop.simps) simp
  next
    case False
    then show ?thesis
      by (subst Indenting_loop.simps) (simp add: word_less_nat_alt)
  qed
qed

lemma concat_replicate_replicate:
  "concat (replicate m (replicate n c)) = replicate (m * n) c"
  by (induction m) (simp_all add: replicate_add)

lemma Indent_indent_string_mk [simp]:
  "Indent_indent_string (mk_Indent level sz ch) = replicate (unat sz) ch"
  by (simp add: mk_Indent_def Indent_fill_eq)

lemma mk_Indent_sel [simp]:
  "Indent_level (mk_Indent level sz ch) = level"
  "Indent_size (mk_Indent level sz ch) = sz"
  "Indent_character (mk_Indent level sz ch) = ch"
  by (simp_all add: mk_Indent_def)

lemma mk_Indent_level_update [simp]:
  "(mk_Indent level sz ch)\<lparr>Indent_level := level'\<rparr> = mk_Indent level' sz ch"
  by (simp add: mk_Indent_def)

lemma Indenting_eq:
  "Indenting i = concat (replicate (unat (Indent_level i)) (Indent_indent_string i))"
  by (simp add: Indenting_def Indenting_loop_eq)

lemma Indenting_mk_Indent:
  "Indenting (mk_Indent level sz ch) = replicate (unat level * unat sz) ch"
  by (simp add: Indenting_eq concat_replicate_replicate)

text \<open>
  Claim C8. \<^verbatim>\<open>Indenting()\<close> is a function of the fields of the \<^verbatim>\<open>Indent\<close> alone and
  its loop terminates for every level. For an \<^verbatim>\<open>Indent\<close> built by the constructor from a
  level, a unit width and a fill character, also after an owning node has replaced the
  level by another one, the result has exactly level times unit width characters (a
  product of natural numbers, which does not wrap around), every one of them the fill
  character. A unit width of zero need not be excluded.
\<close>

theorem C8_Indenting_length_and_fill:
  "Indenting (mk_Indent level sz ch) = replicate (unat level * unat sz) ch
   \<and> length (Indenting (mk_Indent level sz ch)) = unat level * unat sz
   \<and> set (Indenting (mk_Indent level sz ch)) \<subseteq> {ch}
   \<and> Indenting ((mk_Indent level sz ch)\<lparr>Indent_level := level'\<rparr>)
       = replicate (unat level' * unat sz) ch"
  by (auto simp: Indenting_mk_Indent)

section \<open>Snippet\<close>

lemma replicate_numeral_unfold:
  "replicate (numeral k) x = x # replicate (pred_numeral k) x"
  by (simp add: numeral_eq_Suc)

lemma foldl_append_concat: "foldl (\<lambda>acc x. acc @ f x) a xs = a @ concat (map f xs)"
  by (induction xs arbitrary: a) simp_all

lemma Snippet_Out_eq:
  "Snippet_Out sn =
     concat (map (\<lambda>line. Indenting (Snippet_indent sn) @ line @ ''\<newline>'') (Snippet_lines sn))"
  by (simp add: Snippet_Out_def foldl_append_concat)

lemma Snippet_Out_mk_Snippet: "Snippet_Out (mk_Snippet tag indent) = []"
  by (cases tag) (simp_all add: Snippet_Out_eq)

lemma Snippet_Out_Add:
  "Snippet_Out (Snippet_Add sn x) =
     Snippet_Out sn @ Indenting (Snippet_indent sn) @ Snippet_header sn @ x @ Snippet_footer sn
       @ ''\<newline>''"
  by (simp add: Snippet_Out_eq Snippet_Add_def)

text \<open>
  Claim C4. \<^verbatim>\<open>Snippet::Out\<close> is the concatenation, in the order of the stored lines, of
  the indent prefix, the line and a newline; a snippet just constructed (with any of the
  three constructors) renders as the empty string; and a snippet without lines, after
  \<^verbatim>\<open>Add(x)\<close>, renders as the indent prefix, the header, \<open>x\<close>, the footer and a newline.
\<close>

theorem C4_Snippet_Out:
  "Snippet_Out sn =
     concat (map (\<lambda>line. Indenting (Snippet_indent sn) @ line @ ''\<newline>'') (Snippet_lines sn))
   \<and> Snippet_Out (mk_Snippet tag indent) = []
   \<and> (Snippet_lines sn = [] \<longrightarrow>
        Snippet_Out (Snippet_Add sn x) =
          Indenting (Snippet_indent sn) @ Snippet_header sn @ x @ Snippet_footer sn @ ''\<newline>'')"
  using Snippet_Out_eq [of sn] Snippet_Out_mk_Snippet [of tag indent] Snippet_Out_Add [of sn x]
  by simp

theorem C4_Snippet_Out_witness:
  "Snippet_lines (mk_Snippet SystemIncludeType (mk_Indent 1 2 (CHR '' ''))) = []
   \<and> Snippet_Out (Snippet_Add (mk_Snippet SystemIncludeType (mk_Indent 1 2 (CHR '' ''))) ''vector'')
       = ''  #include <vector>\<newline>''"
  using C4_Snippet_Out [of "mk_Snippet SystemIncludeType (mk_Indent 1 2 (CHR '' ''))" LineType
      default_Indent "''vector''"]
  by (simp add: Indenting_mk_Indent replicate_numeral_unfold)

section \<open>Block\<close>

lemma Block_Out_eq:
  "Block_Out b =
     Indenting (Block_indent b) @ Block_header b @ concat (map Snippet_Out (Block_snippets b))
       @ Indenting (Block_indent b) @ Block_footer b"
  by (simp add: Block_Out_def foldl_append_concat)

text \<open>
  Claim C5. \<^verbatim>\<open>Block::Out\<close> is the indent prefix and the header, then the render of each
  child snippet in the order of the child vector (the order of the appends), then the
  indent prefix and the footer; without children nothing stands between the header and
  the second indent prefix.
\<close>

theorem C5_Block_Out:
  "Block_Out b =
     Indenting (Block_indent b) @ Block_header b @ concat (map Snippet_Out (Block_snippets b))
       @ Indenting (Block_indent b) @ Block_footer b
   \<and> (Block_snippets b = [] \<longrightarrow>
        Block_Out b =
          Indenting (Block_indent b) @ Block_header b @ Indenting (Block_indent b) @ Block_footer b)"
  by (simp add: Block_Out_eq)

theorem C5_Block_Out_witness:
  "Block_snippets (mk_Block (NamespaceType ''N'') (mk_Indent 1 2 (CHR '' ''))) = []
   \<and> Block_Out (mk_Block (NamespaceType ''N'') (mk_Indent 1 2 (CHR '' '')))
       = ''  namespace N {\<newline>  }\<newline>''"
  using C5_Block_Out [of "mk_Block (NamespaceType ''N'') (mk_Indent 1 2 (CHR '' ''))"]
  by (simp add: Indenting_mk_Indent replicate_numeral_unfold)

section \<open>Splitting a rendered text into lines\<close>

lemma getlines_line:
  "CHR ''\<newline>'' \<notin> set l \<Longrightarrow>
     getlines acc (l @ CHR ''\<newline>'' # rest) = (acc @ l) # getlines [] rest"
  by (induction l arbitrary: acc) auto

lemma getlines_last_line:
  "CHR ''\<newline>'' \<notin> set l \<Longrightarrow> getlines acc l = (if acc @ l = [] then [] else [acc @ l])"
  by (induction l arbitrary: acc) auto

lemma getlines_no_newline:
  "CHR ''\<newline>'' \<notin> set acc \<Longrightarrow> \<forall>l \<in> set (getlines acc s). CHR ''\<newline>'' \<notin> set l"
proof (induction s arbitrary: acc)
  case Nil
  then show ?case by simp
next
  case (Cons c cs)
  show ?case
  proof (cases "c = CHR ''\<newline>''")
    case True
    with Cons.prems Cons.IH [of "[]"] show ?thesis by simp
  next
    case False
    with Cons.prems Cons.IH [of "acc @ [c]"] show ?thesis by simp
  qed
qed

lemma getlines_join:
  "concat (map (\<lambda>l. l @ ''\<newline>'') (getlines acc s)) =
     acc @ s @ (if s = [] then (if acc = [] then [] else ''\<newline>'')
                else if last s = CHR ''\<newline>'' then [] else ''\<newline>'')"
  by (induction s arbitrary: acc) auto

lemma Snippet_Out_Add_Out:
  "Snippet_Out (Snippet_Add_Out sn out) =
     Snippet_Out sn
       @ concat (map (\<lambda>line. Indenting (Snippet_indent sn) @ line @ ''\<newline>'') (getlines [] out))"
  by (simp add: Snippet_Out_eq Snippet_Add_Out_def)

text \<open>
  Claim C6. \<^verbatim>\<open>Add(otherNode)\<close> on a snippet with any header and footer appends the
  lines of the other node's rendered text as they are, without the header and the footer;
  \<^verbatim>\<open>Add(text)\<close> stores header, text and footer as one line. The lines of a text are
  what \<^verbatim>\<open>std::getline\<close> reads: none contains a newline, and ending each with a newline
  and joining them gives the text back (with a newline added if the text did not end in
  one).
\<close>

theorem C6_Add_node_verbatim:
  "(node_Out n = Some out \<longrightarrow>
      Snippet_Add_any sn (Obj n) =
        Some (sn\<lparr>Snippet_lines := Snippet_lines sn @ getlines [] out\<rparr>))
   \<and> Snippet_Add_any sn (Str text) =
        Some (sn\<lparr>Snippet_lines := Snippet_lines sn
                @ [Snippet_header sn @ text @ Snippet_footer sn]\<rparr>)
   \<and> (\<forall>l \<in> set (getlines [] out). CHR ''\<newline>'' \<notin> set l)
   \<and> concat (map (\<lambda>l. l @ ''\<newline>'') (getlines [] out)) =
        out @ (if out = [] \<or> last out = CHR ''\<newline>'' then [] else ''\<newline>'')"
  using getlines_no_newline [of "[]" out] getlines_join [of "[]" out]
  by (auto simp: Snippet_Add_Out_def Snippet_Add_def)

theorem C6_Add_node_verbatim_witness:
  "node_Out (BlockNode (mk_Block CodeBlockType default_Indent)) = Some ''{\<newline>}\<newline>''
   \<and> Snippet_Add_any (mk_Snippet SystemIncludeType default_Indent)
         (Obj (BlockNode (mk_Block CodeBlockType default_Indent)))
       = Some ((mk_Snippet SystemIncludeType default_Indent)\<lparr>Snippet_lines := [''{'', ''}'']\<rparr>)
   \<and> Snippet_Add_any (mk_Snippet SystemIncludeType default_Indent) (Str ''vector'')
       = Some ((mk_Snippet SystemIncludeType default_Indent)\<lparr>Snippet_lines := [''#include <vector>'']\<rparr>)
   \<and> concat (map (\<lambda>l. l @ ''\<newline>'') (getlines [] ''{\<newline>}\<newline>'')) = ''{\<newline>}\<newline>''"
  using C6_Add_node_verbatim [of "BlockNode (mk_Block CodeBlockType default_Indent)"
      "''{\<newline>}\<newline>''" "mk_Snippet SystemIncludeType default_Indent" "''vector''"]
  by (simp add: Block_Out_eq default_Indent_def Indenting_mk_Indent)

section \<open>Sequences of calls on a Block\<close>

lemma run_snoc:
  "run step s (calls @ [call]) =
     (case run step s calls of None \<Rightarrow> None | Some s' \<Rightarrow> step s' call)"
  by (induction calls arbitrary: s) (simp_all split: option.splits)

lemma Snippet_Add_any_lines:
  "Snippet_Add_any (mk_Snippet LineType indent) a =
     map_option (\<lambda>lines. (mk_Snippet LineType indent)\<lparr>Snippet_lines := lines\<rparr>) (any_lines a)"
proof (cases a)
  case (Str line)
  then show ?thesis by (simp add: Snippet_Add_def)
next
  case (Obj n)
  then show ?thesis by (cases "node_Out n") (simp_all add: Snippet_Add_Out_def)
qed

lemma Block_Add_eq:
  "Block_Add b a =
     map_option (\<lambda>lines. b\<lparr>Block_snippets := Block_snippets b @ [Block_wrap b lines]\<rparr>)
       (any_lines a)"
  unfolding Block_Add_def Snippet_Add_any_lines
  by (cases "any_lines a") (simp_all add: wrapping_Snippet_def)

lemma Block_Add_lines_eq:
  "Block_Add_lines b lines =
     Some (b\<lparr>Block_snippets := Block_snippets b @ map (\<lambda>line. Block_wrap b [line]) lines\<rparr>)"
  by (induction lines arbitrary: b) (simp_all add: Block_Add_eq)

lemma wrapping_Snippet_IncrementIndent:
  "Snippet_IncrementIndent (wrapping_Snippet parent_level sz lines) level =
     wrapping_Snippet (parent_level + level) sz lines"
  by (simp add: Snippet_IncrementIndent_def wrapping_Snippet_def add.commute add.left_commute)

lemma op_renders_any_lines:
  "op_renders (Add a access) \<Longrightarrow> \<exists>lines. any_lines a = Some lines"
  by (cases a) auto

lemma total_increment_snoc [simp]:
  "total_increment (calls @ [call]) = total_increment calls + increment call"
  by (simp add: total_increment_def)

lemma total_increment_Nil [simp]: "total_increment [] = 0"
  by (simp add: total_increment_def)

lemma children_lines_snoc [simp]:
  "children_lines (calls @ [call]) = children_lines calls @ added_lines call"
  by (simp add: children_lines_def)

lemma children_lines_Nil [simp]: "children_lines [] = []"
  by (simp add: children_lines_def)

lemma Block_apply_eq:
  assumes "op_renders call"
  shows "Block_apply b call =
     Some (b\<lparr>Block_indent := (Block_indent b)\<lparr>Indent_level := Indent_level (Block_indent b) + increment call\<rparr>,
             Block_snippets := map (\<lambda>snippet. Snippet_IncrementIndent snippet (increment call)) (Block_snippets b)
               @ map (Block_wrap b) (added_lines call)\<rparr>)"
proof (cases call)
  case (Add a access)
  with assms obtain lines where "any_lines a = Some lines"
    using op_renders_any_lines by blast
  with Add show ?thesis
    by (simp add: Block_Add_eq Snippet_IncrementIndent_def)
next
  case (AddLines lines access)
  then show ?thesis
    by (simp add: Block_Add_lines_eq Snippet_IncrementIndent_def comp_def)
next
  case (IncrementIndent level)
  then show ?thesis
    by (simp add: Block_IncrementIndent_def)
qed

lemma Block_run_eq:
  assumes "Block_snippets b = []"
  shows "list_all op_renders calls \<Longrightarrow>
     run Block_apply b calls =
       Some (b\<lparr>Block_indent := indent_after (Block_indent b) calls,
               Block_snippets :=
                 map (wrapping_Snippet (Indent_level (Block_indent b) + total_increment calls)
                        (Indent_size (Block_indent b)))
                   (children_lines calls)\<rparr>)"
proof (induction calls rule: rev_induct)
  case Nil
  with assms show ?case by (simp add: indent_after_def)
next
  case (snoc call calls)
  then have ok: "op_renders call" and run: "run Block_apply b calls =
       Some (b\<lparr>Block_indent := indent_after (Block_indent b) calls,
               Block_snippets :=
                 map (wrapping_Snippet (Indent_level (Block_indent b) + total_increment calls)
                        (Indent_size (Block_indent b)))
                   (children_lines calls)\<rparr>)"
    by simp_all
  have "added_lines call = [] \<or> increment call = 0"
    by (cases call) simp_all
  then show ?case
    by (auto simp: run_snoc run Block_apply_eq [OF ok] indent_after_def
        wrapping_Snippet_IncrementIndent comp_def add.assoc)
qed

section \<open>Sequences of calls on a Class\<close>

lemma has_all_keys_iff: "has_all_keys c \<longleftrightarrow> (\<forall>access. Class_snippets c access \<noteq> None)"
proof
  assume h: "has_all_keys c"
  show "\<forall>access. Class_snippets c access \<noteq> None"
  proof
    fix access
    from h show "Class_snippets c access \<noteq> None"
      by (cases access) (simp_all add: has_all_keys_def)
  qed
qed (simp add: has_all_keys_def)

lemma Class_Add_eq:
  "Class_Add c a access =
     map_option (\<lambda>lines. c\<lparr>Class_snippets := (Class_snippets c)(access \<mapsto>
                   Class_bucket c access @ [Class_wrap c lines])\<rparr>) (any_lines a)"
  unfolding Class_Add_def Snippet_Add_any_lines
  by (cases "any_lines a") (simp_all add: wrapping_Snippet_def Class_bucket_def)

lemma Class_Add_lines_eq:
  "Class_snippets c access = Some snippets \<Longrightarrow>
   Class_Add_lines c lines access =
     Some (c\<lparr>Class_snippets := (Class_snippets c)(access \<mapsto>
             snippets @ map (\<lambda>line. Class_wrap c [line]) lines)\<rparr>)"
proof (induction lines arbitrary: c snippets)
  case Nil
  then have "(Class_snippets c)(access \<mapsto> snippets) = Class_snippets c"
    by (simp add: fun_upd_idem)
  then show ?case by simp
next
  case (Cons line lines)
  let ?c = "c\<lparr>Class_snippets := (Class_snippets c)(access \<mapsto> snippets @ [Class_wrap c [line]])\<rparr>"
  have add: "Class_Add c (Str line) access = Some ?c"
    using Cons.prems by (simp add: Class_Add_eq Class_bucket_def)
  have "Class_snippets ?c access = Some (snippets @ [Class_wrap c [line]])"
    by simp
  from Cons.IH [OF this] show ?case
    by (simp add: add fun_upd_def cong: if_cong)
qed

lemma Snippet_IncrementIndent_0 [simp]: "Snippet_IncrementIndent sn 0 = sn"
  by (simp add: Snippet_IncrementIndent_def)

lemma Class_apply_eq:
  assumes "op_renders call" and "has_all_keys c"
  shows "Class_apply c call =
     Some (c\<lparr>Class_indent := (Class_indent c)\<lparr>Indent_level := Indent_level (Class_indent c) + increment call\<rparr>,
             Class_snippets := (\<lambda>access.
               if targets call access
               then Some (Class_bucket c access @ map (Class_wrap c) (added_lines call))
               else map_option (map (\<lambda>snippet. Snippet_IncrementIndent snippet (increment call)))
                      (Class_snippets c access))\<rparr>)"
proof (cases call)
  case (Add a access)
  with assms obtain lines where "any_lines a = Some lines"
    using op_renders_any_lines by blast
  with Add show ?thesis
    by (auto simp: Class_Add_eq fun_eq_iff option.map_ident)
next
  case (AddLines lines access)
  from assms(2) obtain snippets where "Class_snippets c access = Some snippets"
    by (auto simp: has_all_keys_iff)
  with AddLines show ?thesis
    by (auto simp: Class_Add_lines_eq fun_eq_iff option.map_ident Class_bucket_def comp_def)
next
  case (IncrementIndent level)
  then show ?thesis
    by (simp add: Class_IncrementIndent_def)
qed

lemma bucket_lines_snoc [simp]:
  "bucket_lines (calls @ [call]) access =
     bucket_lines calls access @ (if targets call access then added_lines call else [])"
  by (simp add: bucket_lines_def)

lemma bucket_lines_Nil [simp]: "bucket_lines [] access = []"
  by (simp add: bucket_lines_def)

lemma Class_run_eq:
  assumes "\<forall>access. Class_snippets c access = Some []"
  shows "list_all op_renders calls \<Longrightarrow>
     run Class_apply c calls =
       Some (c\<lparr>Class_indent := indent_after (Class_indent c) calls,
               Class_snippets := (\<lambda>access. Some
                 (map (wrapping_Snippet (Indent_level (Class_indent c) + total_increment calls)
                         (Indent_size (Class_indent c)))
                    (bucket_lines calls access)))\<rparr>)"
proof (induction calls rule: rev_induct)
  case Nil
  have "Class_snippets c = (\<lambda>access. Some [])"
    using assms by (simp add: fun_eq_iff)
  then have "c\<lparr>Class_snippets := (\<lambda>access. Some [])\<rparr> = c"
    by (metis Class.surjective Class.update_convs(6))
  then show ?case by (simp add: indent_after_def)
next
  case (snoc call calls)
  let ?c = "c\<lparr>Class_indent := indent_after (Class_indent c) calls,
               Class_snippets := (\<lambda>access. Some
                 (map (wrapping_Snippet (Indent_level (Class_indent c) + total_increment calls)
                         (Indent_size (Class_indent c)))
                    (bucket_lines calls access)))\<rparr>"
  from snoc have ok: "op_renders call" and run: "run Class_apply c calls = Some ?c"
    by simp_all
  have keys: "has_all_keys ?c"
    by (simp add: has_all_keys_def)
  have zero: "\<And>access. targets call access \<Longrightarrow> increment call = 0"
    by (cases call) simp_all
  show ?case
    using Class_apply_eq [OF ok keys]
    by (auto simp: run_snoc run indent_after_def fun_eq_iff zero
        wrapping_Snippet_IncrementIndent comp_def add.assoc Class_bucket_def)
qed

section \<open>The indent of the children\<close>

lemma mk_Block_sel [simp]:
  "Block_snippets (mk_Block tag indent) = []"
  "Block_indent (mk_Block tag indent) = indent"
  by (cases tag; simp)+

lemma mk_Class_sel [simp]:
  "Class_snippets (mk_Class name indent) access = Some []"
  "Class_indent (mk_Class name indent) = indent"
  "Class_name (mk_Class name indent) = name"
  "Class_header (mk_Class name indent) = '' {\<newline>''"
  "Class_footer (mk_Class name indent) = ''};\<newline>''"
  by (cases access; simp add: mk_Class_def)+

lemma wrapping_Snippet_sel [simp]:
  "Snippet_indent (wrapping_Snippet parent_level sz lines) = mk_Indent (parent_level + 1) sz (CHR '' '')"
  "Snippet_lines (wrapping_Snippet parent_level sz lines) = lines"
  "Snippet_header (wrapping_Snippet parent_level sz lines) = []"
  "Snippet_footer (wrapping_Snippet parent_level sz lines) = []"
  by (simp_all add: wrapping_Snippet_def)

lemma indent_after_sel [simp]:
  "Indent_level (indent_after indent calls) = Indent_level indent + total_increment calls"
  "Indent_size (indent_after indent calls) = Indent_size indent"
  "Indent_character (indent_after indent calls) = Indent_character indent"
  "Indent_indent_string (indent_after indent calls) = Indent_indent_string indent"
  by (simp_all add: indent_after_def)

lemma Class_bucket_IncrementIndent:
  "Class_bucket (Class_IncrementIndent c k) access =
     map (\<lambda>snippet. Snippet_IncrementIndent snippet k) (Class_bucket c access)"
  by (cases "Class_snippets c access") (simp_all add: Class_bucket_def Class_IncrementIndent_def)

text \<open>
  Claim C1. \<^verbatim>\<open>Add\<close> on a Block or a Class builds the child snippet at the parent's
  level plus one; \<^verbatim>\<open>IncrementIndent(k)\<close> adds \<open>k\<close> to the level of the parent and to the
  level of every child; so after any sequence of calls on a Block or a Class just
  constructed, every child is at the parent's level plus one. The levels are
  \<^verbatim>\<open>std::size_t\<close> values and \<open>+\<close> is the addition of that type.
\<close>

theorem C1_children_one_level_deeper:
  "(op_renders (Add a access) \<longrightarrow>
      (\<exists>b' snippet. Block_Add b a = Some b' \<and> Block_snippets b' = Block_snippets b @ [snippet]
         \<and> Indent_level (Snippet_indent snippet) = Indent_level (Block_indent b) + 1)
    \<and> (\<exists>c' snippet. Class_Add c a access = Some c'
         \<and> Class_bucket c' access = Class_bucket c access @ [snippet]
         \<and> Indent_level (Snippet_indent snippet) = Indent_level (Class_indent c) + 1))
   \<and> Indent_level (Block_indent (Block_IncrementIndent b k)) = Indent_level (Block_indent b) + k
   \<and> map (\<lambda>snippet. Indent_level (Snippet_indent snippet)) (Block_snippets (Block_IncrementIndent b k))
       = map (\<lambda>snippet. Indent_level (Snippet_indent snippet) + k) (Block_snippets b)
   \<and> Indent_level (Class_indent (Class_IncrementIndent c k)) = Indent_level (Class_indent c) + k
   \<and> (\<forall>access'. map (\<lambda>snippet. Indent_level (Snippet_indent snippet))
                    (Class_bucket (Class_IncrementIndent c k) access')
       = map (\<lambda>snippet. Indent_level (Snippet_indent snippet) + k) (Class_bucket c access'))
   \<and> (list_all op_renders calls \<longrightarrow>
        (\<exists>b'. run Block_apply (mk_Block tag indent) calls = Some b'
           \<and> (\<forall>snippet \<in> set (Block_snippets b').
                 Indent_level (Snippet_indent snippet) = Indent_level (Block_indent b') + 1))
      \<and> (\<exists>c'. run Class_apply (mk_Class name indent) calls = Some c'
           \<and> (\<forall>access'. \<forall>snippet \<in> set (Class_bucket c' access').
                 Indent_level (Snippet_indent snippet) = Indent_level (Class_indent c') + 1)))"
proof -
  have add: "op_renders (Add a access) \<longrightarrow>
      (\<exists>b' snippet. Block_Add b a = Some b' \<and> Block_snippets b' = Block_snippets b @ [snippet]
         \<and> Indent_level (Snippet_indent snippet) = Indent_level (Block_indent b) + 1)
    \<and> (\<exists>c' snippet. Class_Add c a access = Some c'
         \<and> Class_bucket c' access = Class_bucket c access @ [snippet]
         \<and> Indent_level (Snippet_indent snippet) = Indent_level (Class_indent c) + 1)"
  proof
    assume "op_renders (Add a access)"
    then obtain lines where "any_lines a = Some lines"
      using op_renders_any_lines by blast
    then show "(\<exists>b' snippet. Block_Add b a = Some b' \<and> Block_snippets b' = Block_snippets b @ [snippet]
         \<and> Indent_level (Snippet_indent snippet) = Indent_level (Block_indent b) + 1)
      \<and> (\<exists>c' snippet. Class_Add c a access = Some c'
         \<and> Class_bucket c' access = Class_bucket c access @ [snippet]
         \<and> Indent_level (Snippet_indent snippet) = Indent_level (Class_indent c) + 1)"
      by (simp add: Block_Add_eq Class_Add_eq Class_bucket_def)
  qed
  have incr_b: "Indent_level (Block_indent (Block_IncrementIndent b k)) = Indent_level (Block_indent b) + k"
    "map (\<lambda>snippet. Indent_level (Snippet_indent snippet)) (Block_snippets (Block_IncrementIndent b k))
       = map (\<lambda>snippet. Indent_level (Snippet_indent snippet) + k) (Block_snippets b)"
    by (simp_all add: Block_IncrementIndent_def Snippet_IncrementIndent_def comp_def)
  have incr_c: "Indent_level (Class_indent (Class_IncrementIndent c k)) = Indent_level (Class_indent c) + k"
    "\<forall>access'. map (\<lambda>snippet. Indent_level (Snippet_indent snippet))
                    (Class_bucket (Class_IncrementIndent c k) access')
       = map (\<lambda>snippet. Indent_level (Snippet_indent snippet) + k) (Class_bucket c access')"
    by (simp_all add: Class_bucket_IncrementIndent comp_def)
      (simp_all add: Class_IncrementIndent_def Snippet_IncrementIndent_def)
  have runs: "list_all op_renders calls \<longrightarrow>
        (\<exists>b'. run Block_apply (mk_Block tag indent) calls = Some b'
           \<and> (\<forall>snippet \<in> set (Block_snippets b').
                 Indent_level (Snippet_indent snippet) = Indent_level (Block_indent b') + 1))
      \<and> (\<exists>c'. run Class_apply (mk_Class name indent) calls = Some c'
           \<and> (\<forall>access'. \<forall>snippet \<in> set (Class_bucket c' access').
                 Indent_level (Snippet_indent snippet) = Indent_level (Class_indent c') + 1))"
    by (auto simp: Block_run_eq Class_run_eq Class_bucket_def)
  from add incr_b incr_c runs show ?thesis
    by blast
qed

theorem C1_children_one_level_deeper_witness:
  "op_renders (Add (Str ''x'') kPublic)
   \<and> list_all op_renders
        [Add (Str ''x'') kPublic, IncrementIndent 3,
         Add (Obj (BlockNode (mk_Block CodeBlockType default_Indent))) kPrivate]
   \<and> map_option
        (\<lambda>b. list_all (\<lambda>snippet. Indent_level (Snippet_indent snippet) = Indent_level (Block_indent b) + 1)
               (Block_snippets b))
        (run Block_apply (mk_Block CodeBlockType default_Indent)
           [Add (Str ''x'') kPublic, IncrementIndent 3,
            Add (Obj (BlockNode (mk_Block CodeBlockType default_Indent))) kPrivate]) = Some True
   \<and> map_option
        (\<lambda>b. (Indent_level (Block_indent b),
              map (\<lambda>snippet. Indent_level (Snippet_indent snippet)) (Block_snippets b)))
        (run Block_apply (mk_Block CodeBlockType default_Indent)
           [Add (Str ''x'') kPublic, IncrementIndent 3,
            Add (Obj (BlockNode (mk_Block CodeBlockType default_Indent))) kPrivate]) = Some (3, [4, 4])
   \<and> map_option
        (\<lambda>c. list_all (\<lambda>access. list_all
                 (\<lambda>snippet. Indent_level (Snippet_indent snippet) = Indent_level (Class_indent c) + 1)
                 (Class_bucket c access)) [kPublic, kProtected, kPrivate])
        (run Class_apply (mk_Class ''X'' default_Indent)
           [Add (Str ''x'') kPublic, IncrementIndent 3,
            Add (Obj (BlockNode (mk_Block CodeBlockType default_Indent))) kPrivate]) = Some True
   \<and> map_option
        (\<lambda>c. (Indent_level (Class_indent c),
              map (\<lambda>snippet. Indent_level (Snippet_indent snippet)) (Class_bucket c kPublic),
              map (\<lambda>snippet. Indent_level (Snippet_indent snippet)) (Class_bucket c kPrivate)))
        (run Class_apply (mk_Class ''X'' default_Indent)
           [Add (Str ''x'') kPublic, IncrementIndent 3,
            Add (Obj (BlockNode (mk_Block CodeBlockType default_Indent))) kPrivate])
       = Some (3, [4], [4])"
proof -
  let ?calls = "[Add (Str ''x'') kPublic, IncrementIndent 3,
                 Add (Obj (BlockNode (mk_Block CodeBlockType default_Indent))) kPrivate]"
  have one: "op_renders (Add (Str ''x'') kPublic)"
    by simp
  have ok: "list_all op_renders ?calls"
    by simp
  from one ok C1_children_one_level_deeper [of "Str ''x''" kPublic
        "mk_Block CodeBlockType default_Indent" "mk_Class ''X'' default_Indent" 3
        ?calls CodeBlockType default_Indent "''X''"]
  obtain b' c' where
    rb: "run Block_apply (mk_Block CodeBlockType default_Indent) ?calls = Some b'" and
    ib: "\<forall>snippet \<in> set (Block_snippets b').
           Indent_level (Snippet_indent snippet) = Indent_level (Block_indent b') + 1" and
    rc: "run Class_apply (mk_Class ''X'' default_Indent) ?calls = Some c'" and
    ic: "\<forall>access'. \<forall>snippet \<in> set (Class_bucket c' access').
           Indent_level (Snippet_indent snippet) = Indent_level (Class_indent c') + 1"
    by blast
  have empty: "\<forall>access. Class_snippets (mk_Class ''X'' default_Indent) access = Some []"
    by simp
  have eb: "map_option
        (\<lambda>b. (Indent_level (Block_indent b),
              map (\<lambda>snippet. Indent_level (Snippet_indent snippet)) (Block_snippets b)))
        (run Block_apply (mk_Block CodeBlockType default_Indent) ?calls) = Some (3, [4, 4])"
    unfolding Block_run_eq [OF mk_Block_sel(1) ok]
    by (simp add: total_increment_def children_lines_def default_Indent_def comp_def)
  have ec: "map_option
        (\<lambda>c. (Indent_level (Class_indent c),
              map (\<lambda>snippet. Indent_level (Snippet_indent snippet)) (Class_bucket c kPublic),
              map (\<lambda>snippet. Indent_level (Snippet_indent snippet)) (Class_bucket c kPrivate)))
        (run Class_apply (mk_Class ''X'' default_Indent) ?calls) = Some (3, [4], [4])"
    unfolding Class_run_eq [OF empty ok]
    by (simp add: total_increment_def bucket_lines_def default_Indent_def comp_def Class_bucket_def)
  have lb: "map_option
        (\<lambda>b. list_all (\<lambda>snippet. Indent_level (Snippet_indent snippet) = Indent_level (Block_indent b) + 1)
               (Block_snippets b))
        (run Block_apply (mk_Block CodeBlockType default_Indent) ?calls) = Some True"
    using ib unfolding rb by (simp add: list_all_iff)
  have lc: "map_option
        (\<lambda>c. list_all (\<lambda>access. list_all
                 (\<lambda>snippet. Indent_level (Snippet_indent snippet) = Indent_level (Class_indent c) + 1)
                 (Class_bucket c access)) [kPublic, kProtected, kPrivate])
        (run Class_apply (mk_Class ''X'' default_Indent) ?calls) = Some True"
    using ic unfolding rc by (simp add: list_all_iff)
  from one ok lb eb lc ec show ?thesis
    by blast
qed

section \<open>The render of a Class\<close>

lemma Class_Out_bucket_eq:
  "Class_snippets c access = Some snippets \<Longrightarrow>
     Class_Out_bucket c access label block =
       Some (block @ spec_bucket (Class_indent c) label snippets)"
  by (simp add: Class_Out_bucket_def spec_bucket_def foldl_append_concat)

lemma Class_Out_eq:
  assumes "has_all_keys c"
  shows "Class_Out c =
     Some (Indenting (Class_indent c) @ ''class '' @ Class_name c @ Class_header c
           @ spec_bucket (Class_indent c) '' public:\<newline>'' (Class_bucket c kPublic)
           @ spec_bucket (Class_indent c) '' protected:\<newline>'' (Class_bucket c kProtected)
           @ spec_bucket (Class_indent c) '' private:\<newline>'' (Class_bucket c kPrivate)
           @ Indenting (Class_indent c) @ Class_footer c)"
proof -
  from assms obtain pub prot priv where
    keys: "Class_snippets c kPublic = Some pub" "Class_snippets c kProtected = Some prot"
      "Class_snippets c kPrivate = Some priv"
    by (auto simp: has_all_keys_def)
  then show ?thesis
    by (simp add: Class_Out_def Class_Out_bucket_eq Class_bucket_def)
qed

lemma Class_run_keys:
  assumes "list_all op_renders calls"
  shows "\<exists>c. run Class_apply (mk_Class name indent) calls = Some c
     \<and> Class_indent c = indent_after indent calls \<and> Class_name c = name
     \<and> Class_header c = '' {\<newline>'' \<and> Class_footer c = ''};\<newline>''
     \<and> (\<forall>access. Class_snippets c access =
           Some (map (wrapping_Snippet (Indent_level indent + total_increment calls) (Indent_size indent))
                   (bucket_lines calls access)))"
proof -
  have empty: "\<forall>access. Class_snippets (mk_Class name indent) access = Some []"
    by simp
  show ?thesis
    unfolding Class_run_eq [OF empty assms] by simp
qed

lemma Class_run_Out:
  assumes "list_all op_renders calls"
  shows "Option.bind (run Class_apply (mk_Class name indent) calls) Class_Out =
     Some (spec_Class_Render (indent_after indent calls) name
             (\<lambda>access. map (wrapping_Snippet (Indent_level indent + total_increment calls)
                                (Indent_size indent))
                         (bucket_lines calls access)))"
proof -
  from Class_run_keys [OF assms, of name indent] obtain c where
    c: "run Class_apply (mk_Class name indent) calls = Some c"
      "Class_indent c = indent_after indent calls" "Class_name c = name"
      "Class_header c = '' {\<newline>''" "Class_footer c = ''};\<newline>''"
      "\<forall>access. Class_snippets c access =
           Some (map (wrapping_Snippet (Indent_level indent + total_increment calls) (Indent_size indent))
                   (bucket_lines calls access))"
    by blast
  from c(6) have keys: "has_all_keys c"
    by (simp add: has_all_keys_def)
  from c show ?thesis
    by (simp add: Class_Out_eq [OF keys] spec_Class_Render_def Class_bucket_def)
qed

text \<open>
  Claim C3. For every Class, that is for a Class just constructed and after any sequence
  of calls on it: each bucket holds the snippets appended to it, in the order of the
  appends; \<^verbatim>\<open>Class::Out\<close> is the indent prefix, \<open>class\<close>, the name and the opening brace,
  then for public, protected and private, in this order, nothing when the bucket is
  empty and otherwise the label line and the renders of the bucket's snippets, then the
  indent prefix and the closing line; with only the private bucket non-empty the single
  label line is the private one; and two sequences of calls that append the same to
  each bucket and add the same levels give the same render, whatever the order of
  their appends across buckets.
\<close>

theorem C3_Class_Out_fixed_order:
  "(list_all op_renders calls \<longrightarrow>
      (\<exists>c. run Class_apply (mk_Class name indent) calls = Some c
         \<and> Class_indent c = indent_after indent calls
         \<and> (\<forall>access. Class_snippets c access = Some (map (Class_wrap c) (bucket_lines calls access)))
         \<and> Class_Out c = Some (spec_Class_Render (Class_indent c) name (Class_bucket c))
         \<and> (Class_bucket c kPublic = [] \<and> Class_bucket c kProtected = []
              \<and> Class_bucket c kPrivate \<noteq> [] \<longrightarrow>
              Class_Out c =
                Some (Indenting (Class_indent c) @ ''class '' @ name @ '' {\<newline>''
                      @ Indenting (Class_indent c) @ '' private:\<newline>''
                      @ concat (map Snippet_Out (Class_bucket c kPrivate))
                      @ Indenting (Class_indent c) @ ''};\<newline>''))))
   \<and> (list_all op_renders calls \<and> list_all op_renders calls'
        \<and> total_increment calls = total_increment calls'
        \<and> (\<forall>access. bucket_lines calls access = bucket_lines calls' access) \<longrightarrow>
        Option.bind (run Class_apply (mk_Class name indent) calls) Class_Out
          = Option.bind (run Class_apply (mk_Class name indent) calls') Class_Out)"
proof (intro conjI impI)
  assume ok: "list_all op_renders calls"
  from Class_run_keys [OF ok, of name indent] obtain c where
    c: "run Class_apply (mk_Class name indent) calls = Some c"
      "Class_indent c = indent_after indent calls" "Class_name c = name"
      "Class_header c = '' {\<newline>''" "Class_footer c = ''};\<newline>''"
      "\<forall>access. Class_snippets c access =
           Some (map (wrapping_Snippet (Indent_level indent + total_increment calls) (Indent_size indent))
                   (bucket_lines calls access))"
    by blast
  from c(6) have keys: "has_all_keys c"
    by (simp add: has_all_keys_def)
  have buckets: "\<forall>access. Class_snippets c access = Some (map (Class_wrap c) (bucket_lines calls access))"
    using c(2,6) by simp
  have out: "Class_Out c = Some (spec_Class_Render (Class_indent c) name (Class_bucket c))"
    using c(3,4,5) by (simp add: Class_Out_eq [OF keys] spec_Class_Render_def)
  have only_private: "Class_bucket c kPublic = [] \<and> Class_bucket c kProtected = []
              \<and> Class_bucket c kPrivate \<noteq> [] \<longrightarrow>
              Class_Out c =
                Some (Indenting (Class_indent c) @ ''class '' @ name @ '' {\<newline>''
                      @ Indenting (Class_indent c) @ '' private:\<newline>''
                      @ concat (map Snippet_Out (Class_bucket c kPrivate))
                      @ Indenting (Class_indent c) @ ''};\<newline>'')"
    by (simp add: out spec_Class_Render_def spec_bucket_def)
  from c(1,2) buckets out only_private
  show "\<exists>c. run Class_apply (mk_Class name indent) calls = Some c
         \<and> Class_indent c = indent_after indent calls
         \<and> (\<forall>access. Class_snippets c access = Some (map (Class_wrap c) (bucket_lines calls access)))
         \<and> Class_Out c = Some (spec_Class_Render (Class_indent c) name (Class_bucket c))
         \<and> (Class_bucket c kPublic = [] \<and> Class_bucket c kProtected = []
              \<and> Class_bucket c kPrivate \<noteq> [] \<longrightarrow>
              Class_Out c =
                Some (Indenting (Class_indent c) @ ''class '' @ name @ '' {\<newline>''
                      @ Indenting (Class_indent c) @ '' private:\<newline>''
                      @ concat (map Snippet_Out (Class_bucket c kPrivate))
                      @ Indenting (Class_indent c) @ ''};\<newline>''))"
    by blast
next
  assume h: "list_all op_renders calls \<and> list_all op_renders calls'
        \<and> total_increment calls = total_increment calls'
        \<and> (\<forall>access. bucket_lines calls access = bucket_lines calls' access)"
  then have ok: "list_all op_renders calls" and ok': "list_all op_renders calls'"
    and total: "total_increment calls = total_increment calls'"
    and lines: "bucket_lines calls = bucket_lines calls'"
    by (simp_all add: fun_eq_iff)
  show "Option.bind (run Class_apply (mk_Class name indent) calls) Class_Out
          = Option.bind (run Class_apply (mk_Class name indent) calls') Class_Out"
    unfolding Class_run_Out [OF ok] Class_run_Out [OF ok'] indent_after_def total lines ..
qed

theorem C3_Class_Out_fixed_order_witness:
  "list_all op_renders [Add (Str ''int x;'') kPublic, Add (Str ''int y;'') kPrivate]
   \<and> list_all op_renders [Add (Str ''int y;'') kPrivate, Add (Str ''int x;'') kPublic]
   \<and> total_increment [Add (Str ''int x;'') kPublic, Add (Str ''int y;'') kPrivate]
       = total_increment [Add (Str ''int y;'') kPrivate, Add (Str ''int x;'') kPublic]
   \<and> list_all (\<lambda>access.
          bucket_lines [Add (Str ''int x;'') kPublic, Add (Str ''int y;'') kPrivate] access
          = bucket_lines [Add (Str ''int y;'') kPrivate, Add (Str ''int x;'') kPublic] access)
        [kPublic, kProtected, kPrivate]
   \<and> Option.bind (run Class_apply (mk_Class ''Foo'' default_Indent)
          [Add (Str ''int x;'') kPublic, Add (Str ''int y;'') kPrivate]) Class_Out
       = Some ''class Foo {\<newline> public:\<newline>  int x;\<newline> private:\<newline>  int y;\<newline>};\<newline>''
   \<and> Option.bind (run Class_apply (mk_Class ''Foo'' default_Indent)
          [Add (Str ''int y;'') kPrivate, Add (Str ''int x;'') kPublic]) Class_Out
       = Some ''class Foo {\<newline> public:\<newline>  int x;\<newline> private:\<newline>  int y;\<newline>};\<newline>''
   \<and> list_all op_renders [Add (Str ''int y;'') kPrivate]
   \<and> Option.bind (run Class_apply (mk_Class ''Foo'' default_Indent)
          [Add (Str ''int y;'') kPrivate]) Class_Out
       = Some ''class Foo {\<newline> private:\<newline>  int y;\<newline>};\<newline>''"
proof -
  let ?xy = "[Add (Str ''int x;'') kPublic, Add (Str ''int y;'') kPrivate]"
  let ?yx = "[Add (Str ''int y;'') kPrivate, Add (Str ''int x;'') kPublic]"
  let ?y = "[Add (Str ''int y;'') kPrivate]"
  have ok: "list_all op_renders ?xy" "list_all op_renders ?yx" "list_all op_renders ?y"
    by simp_all
  have total: "total_increment ?xy = total_increment ?yx"
    by (simp add: total_increment_def)
  have lines: "\<forall>access. bucket_lines ?xy access = bucket_lines ?yx access"
    by (simp add: bucket_lines_def)
  then have lines': "list_all (\<lambda>access. bucket_lines ?xy access = bucket_lines ?yx access)
      [kPublic, kProtected, kPrivate]"
    by simp
  have xy: "Option.bind (run Class_apply (mk_Class ''Foo'' default_Indent) ?xy) Class_Out
       = Some ''class Foo {\<newline> public:\<newline>  int x;\<newline> private:\<newline>  int y;\<newline>};\<newline>''"
    unfolding Class_run_Out [OF ok(1)]
    by (simp add: spec_Class_Render_def spec_bucket_def bucket_lines_def total_increment_def
        indent_after_def default_Indent_def kDefaultIndentSize_def Snippet_Out_eq
        Indenting_mk_Indent replicate_numeral_unfold)
  from C3_Class_Out_fixed_order [of ?xy "''Foo''" default_Indent ?yx] ok total lines
  have same: "Option.bind (run Class_apply (mk_Class ''Foo'' default_Indent) ?xy) Class_Out
      = Option.bind (run Class_apply (mk_Class ''Foo'' default_Indent) ?yx) Class_Out"
    by blast
  from C3_Class_Out_fixed_order [of ?y "''Foo''" default_Indent ?y] ok(3)
  obtain c where c: "run Class_apply (mk_Class ''Foo'' default_Indent) ?y = Some c"
      "Class_indent c = indent_after default_Indent ?y"
      "\<forall>access. Class_snippets c access = Some (map (Class_wrap c) (bucket_lines ?y access))"
      "Class_bucket c kPublic = [] \<and> Class_bucket c kProtected = []
              \<and> Class_bucket c kPrivate \<noteq> [] \<longrightarrow>
              Class_Out c =
                Some (Indenting (Class_indent c) @ ''class '' @ ''Foo'' @ '' {\<newline>''
                      @ Indenting (Class_indent c) @ '' private:\<newline>''
                      @ concat (map Snippet_Out (Class_bucket c kPrivate))
                      @ Indenting (Class_indent c) @ ''};\<newline>'')"
    by blast
  have buckets: "Class_bucket c kPublic = []" "Class_bucket c kProtected = []"
    "Class_bucket c kPrivate = [Class_wrap c [''int y;'']]"
    using c(3) by (simp_all add: Class_bucket_def bucket_lines_def)
  with c(4) have "Class_Out c =
                Some (Indenting (Class_indent c) @ ''class '' @ ''Foo'' @ '' {\<newline>''
                      @ Indenting (Class_indent c) @ '' private:\<newline>''
                      @ concat (map Snippet_Out (Class_bucket c kPrivate))
                      @ Indenting (Class_indent c) @ ''};\<newline>'')"
    by simp
  then have y: "Option.bind (run Class_apply (mk_Class ''Foo'' default_Indent) ?y) Class_Out
       = Some ''class Foo {\<newline> private:\<newline>  int y;\<newline>};\<newline>''"
    unfolding c(1) buckets(3) c(2)
    by (simp add: total_increment_def indent_after_def default_Indent_def kDefaultIndentSize_def
        Snippet_Out_eq Indenting_mk_Indent replicate_numeral_unfold)
  from ok total lines' xy same y show ?thesis
    by simp
qed

section \<open>The fill character of the children\<close>

lemma indent_after_mk_Indent:
  "indent_after (mk_Indent level sz ch) calls = mk_Indent (level + total_increment calls) sz ch"
  by (simp add: indent_after_def)

lemma Snippet_Out_wrapping_Snippet:
  "Snippet_Out (wrapping_Snippet parent_level sz lines) =
     concat (map (\<lambda>line. replicate (unat (parent_level + 1) * unat sz) (CHR '' '') @ line @ ''\<newline>'')
               lines)"
  by (simp add: Snippet_Out_eq Indenting_mk_Indent)

text \<open>
  Claim C10. \<^verbatim>\<open>Add\<close> builds the wrapping snippet with
  \<^verbatim>\<open>Indent(indent_.level_ + 1, indent_.size_)\<close>, so with the default fill character.
  For a Block or a Class constructed with an Indent of any fill character, a space or
  not, after any sequence of calls: the parent's own prefix is made of its fill
  character, while every child has the parent's level plus one, the parent's unit
  width and the space as fill character, and renders each of its lines after a prefix
  of spaces.
\<close>

theorem C10_children_use_space_fill:
  "list_all op_renders calls \<longrightarrow>
     (\<exists>b. run Block_apply (mk_Block tag (mk_Indent level sz ch)) calls = Some b
        \<and> Indenting (Block_indent b) = replicate (unat (Indent_level (Block_indent b)) * unat sz) ch
        \<and> (\<forall>snippet \<in> set (Block_snippets b).
              Snippet_indent snippet = mk_Indent (Indent_level (Block_indent b) + 1) sz (CHR '' '')
            \<and> Snippet_Out snippet =
                concat (map (\<lambda>line. replicate (unat (Indent_level (Block_indent b) + 1) * unat sz)
                                      (CHR '' '') @ line @ ''\<newline>'')
                          (Snippet_lines snippet))))
   \<and> (\<exists>c. run Class_apply (mk_Class name (mk_Indent level sz ch)) calls = Some c
        \<and> Indenting (Class_indent c) = replicate (unat (Indent_level (Class_indent c)) * unat sz) ch
        \<and> (\<forall>access. \<forall>snippet \<in> set (Class_bucket c access).
              Snippet_indent snippet = mk_Indent (Indent_level (Class_indent c) + 1) sz (CHR '' '')
            \<and> Snippet_Out snippet =
                concat (map (\<lambda>line. replicate (unat (Indent_level (Class_indent c) + 1) * unat sz)
                                      (CHR '' '') @ line @ ''\<newline>'')
                          (Snippet_lines snippet))))"
proof
  assume ok: "list_all op_renders calls"
  have empty: "\<forall>access. Class_snippets (mk_Class name (mk_Indent level sz ch)) access = Some []"
    by simp
  have block: "\<exists>b. run Block_apply (mk_Block tag (mk_Indent level sz ch)) calls = Some b
        \<and> Indenting (Block_indent b) = replicate (unat (Indent_level (Block_indent b)) * unat sz) ch
        \<and> (\<forall>snippet \<in> set (Block_snippets b).
              Snippet_indent snippet = mk_Indent (Indent_level (Block_indent b) + 1) sz (CHR '' '')
            \<and> Snippet_Out snippet =
                concat (map (\<lambda>line. replicate (unat (Indent_level (Block_indent b) + 1) * unat sz)
                                      (CHR '' '') @ line @ ''\<newline>'')
                          (Snippet_lines snippet)))"
    unfolding Block_run_eq [OF mk_Block_sel(1) ok]
    by (auto simp: indent_after_mk_Indent Indenting_mk_Indent Snippet_Out_wrapping_Snippet)
  have "class": "\<exists>c. run Class_apply (mk_Class name (mk_Indent level sz ch)) calls = Some c
        \<and> Indenting (Class_indent c) = replicate (unat (Indent_level (Class_indent c)) * unat sz) ch
        \<and> (\<forall>access. \<forall>snippet \<in> set (Class_bucket c access).
              Snippet_indent snippet = mk_Indent (Indent_level (Class_indent c) + 1) sz (CHR '' '')
            \<and> Snippet_Out snippet =
                concat (map (\<lambda>line. replicate (unat (Indent_level (Class_indent c) + 1) * unat sz)
                                      (CHR '' '') @ line @ ''\<newline>'')
                          (Snippet_lines snippet)))"
    unfolding Class_run_eq [OF empty ok]
    by (auto simp: indent_after_mk_Indent Indenting_mk_Indent Snippet_Out_wrapping_Snippet
        Class_bucket_def)
  from block "class" show "(\<exists>b. run Block_apply (mk_Block tag (mk_Indent level sz ch)) calls = Some b
        \<and> Indenting (Block_indent b) = replicate (unat (Indent_level (Block_indent b)) * unat sz) ch
        \<and> (\<forall>snippet \<in> set (Block_snippets b).
              Snippet_indent snippet = mk_Indent (Indent_level (Block_indent b) + 1) sz (CHR '' '')
            \<and> Snippet_Out snippet =
                concat (map (\<lambda>line. replicate (unat (Indent_level (Block_indent b) + 1) * unat sz)
                                      (CHR '' '') @ line @ ''\<newline>'')
                          (Snippet_lines snippet))))
   \<and> (\<exists>c. run Class_apply (mk_Class name (mk_Indent level sz ch)) calls = Some c
        \<and> Indenting (Class_indent c) = replicate (unat (Indent_level (Class_indent c)) * unat sz) ch
        \<and> (\<forall>access. \<forall>snippet \<in> set (Class_bucket c access).
              Snippet_indent snippet = mk_Indent (Indent_level (Class_indent c) + 1) sz (CHR '' '')
            \<and> Snippet_Out snippet =
                concat (map (\<lambda>line. replicate (unat (Indent_level (Class_indent c) + 1) * unat sz)
                                      (CHR '' '') @ line @ ''\<newline>'')
                          (Snippet_lines snippet))))"
    by blast
qed

theorem C10_children_use_space_fill_witness:
  "list_all op_renders [Add (Str ''x'') kPrivate]
   \<and> map_option (\<lambda>b. map (\<lambda>snippet. Indent_character (Snippet_indent snippet)) (Block_snippets b))
        (run Block_apply (mk_Block CodeBlockType (mk_Indent 1 2 (CHR ''-''))) [Add (Str ''x'') kPrivate])
       = Some [CHR '' '']
   \<and> map_option Block_Out
        (run Block_apply (mk_Block CodeBlockType (mk_Indent 1 2 (CHR ''-''))) [Add (Str ''x'') kPrivate])
       = Some ''--{\<newline>    x\<newline>--}\<newline>''
   \<and> Option.bind
        (run Class_apply (mk_Class ''X'' (mk_Indent 1 2 (CHR ''-''))) [Add (Str ''x'') kPrivate])
        Class_Out
       = Some ''--class X {\<newline>-- private:\<newline>    x\<newline>--};\<newline>''"
proof -
  let ?calls = "[Add (Str ''x'') kPrivate]"
  have ok: "list_all op_renders ?calls"
    by simp
  from ok C10_children_use_space_fill [of ?calls CodeBlockType 1 2 "CHR ''-''" "''X''"]
  obtain b where rb: "run Block_apply (mk_Block CodeBlockType (mk_Indent 1 2 (CHR ''-''))) ?calls = Some b"
    and ib: "\<forall>snippet \<in> set (Block_snippets b).
              Snippet_indent snippet = mk_Indent (Indent_level (Block_indent b) + 1) 2 (CHR '' '')
            \<and> Snippet_Out snippet =
                concat (map (\<lambda>line. replicate (unat (Indent_level (Block_indent b) + 1) * unat (2::size_t))
                                      (CHR '' '') @ line @ ''\<newline>'')
                          (Snippet_lines snippet))"
    by blast
  have "length (Block_snippets b) = 1"
    using rb unfolding Block_run_eq [OF mk_Block_sel(1) ok]
    by (auto simp: children_lines_def)
  then obtain snippet where sb: "Block_snippets b = [snippet]"
    by (cases "Block_snippets b") simp_all
  with ib have "Indent_character (Snippet_indent snippet) = CHR '' ''"
    by simp
  with sb have chars: "map_option
      (\<lambda>b. map (\<lambda>snippet. Indent_character (Snippet_indent snippet)) (Block_snippets b))
      (run Block_apply (mk_Block CodeBlockType (mk_Indent 1 2 (CHR ''-''))) ?calls) = Some [CHR '' '']"
    unfolding rb by simp
  have out_b: "map_option Block_Out
        (run Block_apply (mk_Block CodeBlockType (mk_Indent 1 2 (CHR ''-''))) ?calls)
       = Some ''--{\<newline>    x\<newline>--}\<newline>''"
    unfolding Block_run_eq [OF mk_Block_sel(1) ok]
    by (simp add: Block_Out_eq indent_after_mk_Indent Indenting_mk_Indent
        Snippet_Out_wrapping_Snippet children_lines_def total_increment_def
        replicate_numeral_unfold)
  have out_c: "Option.bind
        (run Class_apply (mk_Class ''X'' (mk_Indent 1 2 (CHR ''-''))) ?calls) Class_Out
       = Some ''--class X {\<newline>-- private:\<newline>    x\<newline>--};\<newline>''"
    unfolding Class_run_Out [OF ok]
    by (simp add: spec_Class_Render_def spec_bucket_def bucket_lines_def total_increment_def
        indent_after_mk_Indent Indenting_mk_Indent Snippet_Out_wrapping_Snippet
        replicate_numeral_unfold)
  from ok chars out_b out_c show ?thesis
    by simp
qed

section \<open>A Class absorbed by a namespace Block\<close>

lemma getlines_concat_lines:
  "\<forall>l \<in> set ls. CHR ''\<newline>'' \<notin> set l \<Longrightarrow>
     getlines [] (concat (map (\<lambda>l. l @ ''\<newline>'') ls)) = ls"
  by (induction ls) (simp_all add: getlines_line)

lemma Class_with_public_line:
  "Class_Add (mk_Class X default_Indent) (Str L) kPublic =
     Some ((mk_Class X default_Indent)\<lparr>Class_snippets :=
             (Class_snippets (mk_Class X default_Indent))(kPublic \<mapsto> [wrapping_Snippet 0 2 [L]])\<rparr>)"
  by (simp add: Class_Add_eq Class_bucket_def default_Indent_def kDefaultIndentSize_def)

lemma Class_with_public_line_Out:
  "Class_Out ((mk_Class X default_Indent)\<lparr>Class_snippets :=
             (Class_snippets (mk_Class X default_Indent))(kPublic \<mapsto> [wrapping_Snippet 0 2 [L]])\<rparr>) =
     Some (concat (map (\<lambda>l. l @ ''\<newline>'')
             [''class '' @ X @ '' {'', '' public:'', ''  '' @ L, ''};'']))"
proof -
  let ?c = "(mk_Class X default_Indent)\<lparr>Class_snippets :=
             (Class_snippets (mk_Class X default_Indent))(kPublic \<mapsto> [wrapping_Snippet 0 2 [L]])\<rparr>"
  have keys: "has_all_keys ?c"
    by (simp add: has_all_keys_def)
  show ?thesis
    unfolding Class_Out_eq [OF keys]
    by (simp add: Class_bucket_def spec_bucket_def default_Indent_def Indenting_mk_Indent
        Snippet_Out_wrapping_Snippet replicate_numeral_unfold)
qed

text \<open>
  Claim C2. A namespace Block named \<open>N\<close> and a Class named \<open>X\<close>, both at level 0 with
  the default indent; the Class holds the single public line \<open>L\<close> and is then added to
  the Block. The Block renders as its header line, the four lines of the Class's render
  each after two spaces and before a newline, and its closing line. The name \<open>X\<close> and
  the line \<open>L\<close> contain no newline: the text is split at newlines when it is absorbed.
\<close>

theorem C2_namespace_absorbs_Class:
  assumes "CHR ''\<newline>'' \<notin> set X" and "CHR ''\<newline>'' \<notin> set L"
  shows "map_option Block_Out
           (Option.bind (Class_Add (mk_Class X default_Indent) (Str L) kPublic)
              (\<lambda>cls. Block_Add (mk_Block (NamespaceType N) default_Indent) (Obj (ClassNode cls))))
         = Some (''namespace '' @ N @ '' {\<newline>''
                 @ concat (map (\<lambda>line. ''  '' @ line @ ''\<newline>'')
                             [''class '' @ X @ '' {'', '' public:'', ''  '' @ L, ''};''])
                 @ ''}\<newline>'')"
proof -
  have "\<forall>l \<in> set [''class '' @ X @ '' {'', '' public:'', ''  '' @ L, ''};'']. CHR ''\<newline>'' \<notin> set l"
    using assms by simp
  from getlines_concat_lines [OF this]
  have lines: "any_lines (Obj (ClassNode ((mk_Class X default_Indent)\<lparr>Class_snippets :=
             (Class_snippets (mk_Class X default_Indent))(kPublic \<mapsto> [wrapping_Snippet 0 2 [L]])\<rparr>)))
      = Some [''class '' @ X @ '' {'', '' public:'', ''  '' @ L, ''};'']"
    by (simp add: Class_with_public_line_Out)
  have add: "Block_Add (mk_Block (NamespaceType N) default_Indent)
      (Obj (ClassNode ((mk_Class X default_Indent)\<lparr>Class_snippets :=
             (Class_snippets (mk_Class X default_Indent))(kPublic \<mapsto> [wrapping_Snippet 0 2 [L]])\<rparr>)))
      = Some ((mk_Block (NamespaceType N) default_Indent)\<lparr>Block_snippets :=
                [wrapping_Snippet 0 2 [''class '' @ X @ '' {'', '' public:'', ''  '' @ L, ''};'']]\<rparr>)"
    unfolding Block_Add_eq lines
    by (simp add: default_Indent_def kDefaultIndentSize_def)
  show ?thesis
    unfolding Class_with_public_line Option.bind.simps add option.map
    by (simp add: Block_Out_eq default_Indent_def Indenting_mk_Indent
        Snippet_Out_wrapping_Snippet replicate_numeral_unfold)
qed

theorem C2_namespace_absorbs_Class_witness:
  "CHR ''\<newline>'' \<notin> set ''Foo'' \<and> CHR ''\<newline>'' \<notin> set ''int x;''
   \<and> map_option Block_Out
        (Option.bind (Class_Add (mk_Class ''Foo'' default_Indent) (Str ''int x;'') kPublic)
           (\<lambda>cls. Block_Add (mk_Block (NamespaceType ''ns'') default_Indent) (Obj (ClassNode cls))))
       = Some ''namespace ns {\<newline>  class Foo {\<newline>   public:\<newline>    int x;\<newline>  };\<newline>}\<newline>''"
proof -
  have h: "CHR ''\<newline>'' \<notin> set ''Foo''" "CHR ''\<newline>'' \<notin> set ''int x;''"
    by simp_all
  from C2_namespace_absorbs_Class [OF h, of "''ns''"] h show ?thesis
    by simp
qed

section \<open>No operation fails\<close>

lemma has_all_keys_mk_Class: "has_all_keys (mk_Class name indent)"
  by (simp add: has_all_keys_def)

lemma has_all_keys_Class_Add:
  "has_all_keys c \<Longrightarrow> Class_Add c a access = Some c' \<Longrightarrow> has_all_keys c'"
  by (auto simp: Class_Add_eq has_all_keys_def)

lemma has_all_keys_Class_Add_lines:
  assumes "has_all_keys c" and "Class_Add_lines c lines access = Some c'"
  shows "has_all_keys c'"
proof -
  from assms(1) obtain snippets where "Class_snippets c access = Some snippets"
    by (auto simp: has_all_keys_iff)
  from Class_Add_lines_eq [OF this, of lines] assms show ?thesis
    by (auto simp: has_all_keys_def)
qed

lemma has_all_keys_Class_IncrementIndent:
  "has_all_keys c \<Longrightarrow> has_all_keys (Class_IncrementIndent c level)"
  by (simp add: has_all_keys_def Class_IncrementIndent_def)

lemma node_apply_keeps_keys:
  "node_has_all_keys n \<Longrightarrow> node_apply n call = Some n' \<Longrightarrow> node_has_all_keys n'"
proof (cases n)
  case (ClassNode c)
  assume "node_has_all_keys n" and "node_apply n call = Some n'"
  with ClassNode show ?thesis
    by (cases call)
      (auto dest: has_all_keys_Class_Add has_all_keys_Class_Add_lines
        simp: has_all_keys_Class_IncrementIndent)
qed auto

lemma reachable_has_all_keys: "reachable n \<Longrightarrow> node_has_all_keys n"
  by (induction rule: reachable.induct)
    (auto simp: has_all_keys_mk_Class dest: node_apply_keeps_keys)

lemma node_Out_total: "node_has_all_keys n \<Longrightarrow> \<exists>out. node_Out n = Some out"
  by (cases n) (simp_all add: Class_Out_eq)

lemma node_apply_total:
  assumes "node_has_all_keys n" and "op_renders call"
  shows "\<exists>n'. node_apply n call = Some n'"
proof (cases n)
  case (SnippetNode sn)
  show ?thesis
  proof (cases call)
    case (Add a access)
    with assms(2) obtain lines where "any_lines a = Some lines"
      using op_renders_any_lines by blast
    with SnippetNode Add show ?thesis
      by (cases a) auto
  qed (simp_all add: SnippetNode)
next
  case (BlockNode b)
  then show ?thesis
    by (simp add: Block_apply_eq [OF assms(2)])
next
  case (ClassNode c)
  with assms(1) have "has_all_keys c"
    by simp
  with ClassNode show ?thesis
    by (simp add: Class_apply_eq [OF assms(2)])
qed

text \<open>
  Claim C9. The functions of Indent, Snippet and Block are total functions of the
  model (their loops terminate). The one operation that can throw is \<^verbatim>\<open>at\<close> in
  \<^verbatim>\<open>Class::Out\<close>. For every node that a program can build: it renders; every call of
  \<^verbatim>\<open>Add\<close> with a text or with a node that a program can build, of \<^verbatim>\<open>Add\<close> with a
  sequence of texts and of \<^verbatim>\<open>IncrementIndent\<close> returns, and its result is again such a
  node; this includes the empty text, the empty sequence and level 0; and a Class has
  its three keys, so that the lookups of its render succeed.
\<close>

theorem C9_no_operation_fails:
  "reachable n \<Longrightarrow>
     (\<exists>out. node_Out n = Some out)
   \<and> (\<forall>text access. \<exists>n'. node_apply n (Add (Str text) access) = Some n' \<and> reachable n')
   \<and> (\<forall>m access. reachable m \<longrightarrow>
         (\<exists>n'. node_apply n (Add (Obj m) access) = Some n' \<and> reachable n'))
   \<and> (\<forall>lines access. \<exists>n'. node_apply n (AddLines lines access) = Some n' \<and> reachable n')
   \<and> (\<forall>level. \<exists>n'. node_apply n (IncrementIndent level) = Some n' \<and> reachable n')
   \<and> (\<forall>c. n = ClassNode c \<longrightarrow>
         Class_snippets c kPublic \<noteq> None \<and> Class_snippets c kProtected \<noteq> None
         \<and> Class_snippets c kPrivate \<noteq> None \<and> (\<exists>out. Class_Out c = Some out))"
proof -
  assume r: "reachable n"
  then have keys: "node_has_all_keys n"
    by (rule reachable_has_all_keys)
  have out: "\<exists>out. node_Out n = Some out"
    using keys by (rule node_Out_total)
  have add_text: "\<forall>text access. \<exists>n'. node_apply n (Add (Str text) access) = Some n' \<and> reachable n'"
  proof (intro allI)
    fix literal access
    from node_apply_total [OF keys, of "Add (Str literal) access"]
    obtain n' where "node_apply n (Add (Str literal) access) = Some n'"
      by auto
    with r show "\<exists>n'. node_apply n (Add (Str literal) access) = Some n' \<and> reachable n'"
      by (blast intro: reachable.call_Add_text)
  qed
  have add_node: "\<forall>m access. reachable m \<longrightarrow>
         (\<exists>n'. node_apply n (Add (Obj m) access) = Some n' \<and> reachable n')"
  proof (intro allI impI)
    fix m access
    assume m: "reachable m"
    then have "op_renders (Add (Obj m) access)"
      using node_Out_total [OF reachable_has_all_keys] by fastforce
    from node_apply_total [OF keys this]
    obtain n' where "node_apply n (Add (Obj m) access) = Some n'"
      by auto
    with r m show "\<exists>n'. node_apply n (Add (Obj m) access) = Some n' \<and> reachable n'"
      by (blast intro: reachable.call_Add_node)
  qed
  have add_lines: "\<forall>lines access. \<exists>n'. node_apply n (AddLines lines access) = Some n' \<and> reachable n'"
  proof (intro allI)
    fix lines access
    from node_apply_total [OF keys, of "AddLines lines access"]
    obtain n' where "node_apply n (AddLines lines access) = Some n'"
      by auto
    with r show "\<exists>n'. node_apply n (AddLines lines access) = Some n' \<and> reachable n'"
      by (blast intro: reachable.call_AddLines)
  qed
  have incr: "\<forall>level. \<exists>n'. node_apply n (IncrementIndent level) = Some n' \<and> reachable n'"
  proof (intro allI)
    fix level
    from node_apply_total [OF keys, of "IncrementIndent level"]
    obtain n' where "node_apply n (IncrementIndent level) = Some n'"
      by auto
    with r show "\<exists>n'. node_apply n (IncrementIndent level) = Some n' \<and> reachable n'"
      by (blast intro: reachable.call_IncrementIndent)
  qed
  have keys_out: "\<forall>c. n = ClassNode c \<longrightarrow>
         Class_snippets c kPublic \<noteq> None \<and> Class_snippets c kProtected \<noteq> None
         \<and> Class_snippets c kPrivate \<noteq> None \<and> (\<exists>out. Class_Out c = Some out)"
    using keys out by (auto simp: has_all_keys_def)
  from out add_text add_node add_lines incr keys_out show ?thesis
    by blast
qed

theorem C9_no_operation_fails_witness:
  "reachable (ClassNode (mk_Class ''X'' (mk_Indent 0 0 (CHR '' ''))))
   \<and> reachable (SnippetNode (mk_Snippet LineType default_Indent))
   \<and> node_Out (ClassNode (mk_Class ''X'' (mk_Indent 0 0 (CHR '' '')))) = Some ''class X {\<newline>};\<newline>''
   \<and> (\<exists>n'. node_apply (ClassNode (mk_Class ''X'' (mk_Indent 0 0 (CHR '' ''))))
              (Add (Str []) kPrivate) = Some n' \<and> reachable n')
   \<and> (\<exists>n'. node_apply (ClassNode (mk_Class ''X'' (mk_Indent 0 0 (CHR '' ''))))
              (Add (Obj (SnippetNode (mk_Snippet LineType default_Indent))) kPublic) = Some n'
            \<and> reachable n')
   \<and> (\<exists>n'. node_apply (ClassNode (mk_Class ''X'' (mk_Indent 0 0 (CHR '' ''))))
              (AddLines [] kProtected) = Some n' \<and> reachable n')
   \<and> (\<exists>n'. node_apply (ClassNode (mk_Class ''X'' (mk_Indent 0 0 (CHR '' ''))))
              (IncrementIndent 0) = Some n' \<and> reachable n')
   \<and> Class_snippets (mk_Class ''X'' (mk_Indent 0 0 (CHR '' ''))) kPublic = Some []"
proof -
  let ?n = "ClassNode (mk_Class ''X'' (mk_Indent 0 0 (CHR '' '')))"
  let ?m = "SnippetNode (mk_Snippet LineType default_Indent)"
  have n: "reachable ?n" and m: "reachable ?m"
    by (rule reachable.new_Class, rule reachable.new_Snippet)
  have out: "node_Out ?n = Some ''class X {\<newline>};\<newline>''"
    by (simp add: Class_Out_eq [OF has_all_keys_mk_Class] Class_bucket_def spec_bucket_def
        Indenting_mk_Indent)
  from C9_no_operation_fails [OF n] n m out show ?thesis
    by simp
qed

section \<open>Absorbed nodes are snapshots\<close>

lemma reachable_apply:
  assumes "reachable n" and "\<And>m access. call = Add (Obj m) access \<Longrightarrow> reachable m"
  shows "\<exists>n'. node_apply n call = Some n' \<and> reachable n'"
proof -
  have keys: "node_has_all_keys n"
    using assms(1) by (rule reachable_has_all_keys)
  have "op_renders call"
  proof (cases call)
    case (Add a access)
    show ?thesis
    proof (cases a)
      case (Obj m)
      with Add assms(2) have "reachable m"
        by simp
      then have "\<exists>out. node_Out m = Some out"
        by (intro node_Out_total reachable_has_all_keys)
      with Add Obj show ?thesis
        by auto
    qed (simp add: Add)
  qed simp_all
  from node_apply_total [OF keys this] obtain n' where n': "node_apply n call = Some n'"
    by blast
  have "reachable n'"
  proof (cases call)
    case (Add a access)
    show ?thesis
    proof (cases a)
      case (Str line)
      with Add n' assms(1) show ?thesis
        by (blast intro: reachable.call_Add_text)
    next
      case (Obj m)
      with Add n' assms show ?thesis
        by (blast intro: reachable.call_Add_node)
    qed
  next
    case (AddLines lines access)
    with n' assms(1) show ?thesis
      by (blast intro: reachable.call_AddLines)
  next
    case (IncrementIndent level)
    with n' assms(1) show ?thesis
      by (blast intro: reachable.call_IncrementIndent)
  qed
  with n' show ?thesis
    by blast
qed

lemma exec_frame:
  assumes "\<forall>x. reachable (s x)"
  shows "\<exists>s'. exec s st = Some s' \<and> (\<forall>x. reachable (s' x)) \<and> (\<forall>x. x \<noteq> target st \<longrightarrow> s' x = s x)"
proof -
  have arg: "reachable m" if h: "stmt_op s st = Add (Obj m) access" for m access
  proof (cases st)
    case (Add_stmt x a access')
    with h assms show ?thesis
      by (cases a) auto
  qed (use h in simp_all)
  have "\<exists>n'. node_apply (s (target st)) (stmt_op s st) = Some n' \<and> reachable n'"
  proof (rule reachable_apply)
    show "reachable (s (target st))"
      using assms by simp
  next
    fix m access
    assume "stmt_op s st = Add (Obj m) access"
    then show "reachable m"
      by (rule arg)
  qed
  then obtain n' where "node_apply (s (target st)) (stmt_op s st) = Some n'" and "reachable n'"
    by blast
  with assms show ?thesis
    by (simp add: exec_def)
qed

lemma exec_all_frame:
  "\<forall>x. reachable (s x) \<Longrightarrow> list_all (\<lambda>st. target st \<noteq> p) sts \<Longrightarrow>
     \<exists>s'. exec_all s sts = Some s' \<and> s' p = s p \<and> (\<forall>x. reachable (s' x))"
proof (induction sts arbitrary: s)
  case Nil
  then show ?case by simp
next
  case (Cons st sts)
  from exec_frame [OF Cons.prems(1), of st] obtain s1 where
    s1: "exec s st = Some s1" "\<forall>x. reachable (s1 x)" "\<forall>x. x \<noteq> target st \<longrightarrow> s1 x = s x"
    by blast
  from Cons.prems(2) have "target st \<noteq> p" and rest: "list_all (\<lambda>st. target st \<noteq> p) sts"
    by simp_all
  with s1(3) have "s1 p = s p"
    by simp
  with Cons.IH [OF s1(2) rest] s1(1) show ?case
    by auto
qed

text \<open>
  Claim C7. In a program whose variables hold nodes that it has built, the statement
  \<^verbatim>\<open>p.Add(n)\<close> returns and gives \<open>p\<close> the value that \<^verbatim>\<open>Add\<close> computes from the node in
  \<open>n\<close> at that moment; any later statements on variables other than \<open>p\<close>, among them
  \<^verbatim>\<open>IncrementIndent\<close> and \<^verbatim>\<open>Add\<close> on \<open>n\<close>, return and leave the node in \<open>p\<close>, and so its
  render, as they were.
\<close>

theorem C7_absorbed_node_is_snapshot:
  assumes "\<forall>x. reachable (s x)" and "list_all (\<lambda>st. target st \<noteq> p) later"
  shows "\<exists>s1 s2 out. exec s (Add_stmt p (Ref n) access) = Some s1
     \<and> node_apply (s p) (Add (Obj (s n)) access) = Some (s1 p)
     \<and> exec_all s1 later = Some s2
     \<and> s2 p = s1 p
     \<and> node_Out (s1 p) = Some out \<and> node_Out (s2 p) = Some out"
proof -
  from exec_frame [OF assms(1), of "Add_stmt p (Ref n) access"] obtain s1 where
    s1: "exec s (Add_stmt p (Ref n) access) = Some s1" "\<forall>x. reachable (s1 x)"
    by blast
  from s1(1) have snap: "node_apply (s p) (Add (Obj (s n)) access) = Some (s1 p)"
    by (auto simp: exec_def)
  from exec_all_frame [OF s1(2) assms(2)] obtain s2 where
    s2: "exec_all s1 later = Some s2" "s2 p = s1 p"
    by blast
  from s1(2) have "reachable (s1 p)"
    by simp
  then obtain out where "node_Out (s1 p) = Some out"
    using node_Out_total reachable_has_all_keys by blast
  with s1(1) snap s2 show ?thesis
    by simp
qed

theorem C7_absorbed_node_is_snapshot_witness:
  "(\<forall>x. reachable (((\<lambda>_. BlockNode (mk_Block CodeBlockType default_Indent))
            (Suc 0 := ClassNode (mk_Class ''X'' default_Indent))) x))
   \<and> list_all (\<lambda>st. target st \<noteq> 0)
        [IncrementIndent_stmt (Suc 0) 5, Add_stmt (Suc 0) (Literal ''int y;'') kPublic]
   \<and> Option.bind
        (exec ((\<lambda>_. BlockNode (mk_Block CodeBlockType default_Indent))
                 (Suc 0 := ClassNode (mk_Class ''X'' default_Indent)))
           (Add_stmt 0 (Ref (Suc 0)) kPrivate))
        (\<lambda>s1. node_Out (s1 0))
       = Some ''{\<newline>  class X {\<newline>  };\<newline>}\<newline>''
   \<and> Option.bind
        (Option.bind
           (exec ((\<lambda>_. BlockNode (mk_Block CodeBlockType default_Indent))
                    (Suc 0 := ClassNode (mk_Class ''X'' default_Indent)))
              (Add_stmt 0 (Ref (Suc 0)) kPrivate))
           (\<lambda>s1. exec_all s1
              [IncrementIndent_stmt (Suc 0) 5, Add_stmt (Suc 0) (Literal ''int y;'') kPublic]))
        (\<lambda>s2. node_Out (s2 0))
       = Some ''{\<newline>  class X {\<newline>  };\<newline>}\<newline>''"
proof -
  let ?s = "(\<lambda>_. BlockNode (mk_Block CodeBlockType default_Indent))
              (Suc 0 := ClassNode (mk_Class ''X'' default_Indent))"
  let ?later = "[IncrementIndent_stmt (Suc 0) 5, Add_stmt (Suc 0) (Literal ''int y;'') kPublic]"
  have store: "\<forall>x. reachable (?s x)"
    by (auto intro: reachable.new_Block reachable.new_Class simp del: mk_Block.simps)
  have later: "list_all (\<lambda>st. target st \<noteq> 0) ?later"
    by simp
  have out1: "Option.bind (exec ?s (Add_stmt 0 (Ref (Suc 0)) kPrivate)) (\<lambda>s1. node_Out (s1 0))
       = Some ''{\<newline>  class X {\<newline>  };\<newline>}\<newline>''"
    by (simp add: exec_def Block_Add_eq Class_Out_eq [OF has_all_keys_mk_Class] Class_bucket_def
        spec_bucket_def default_Indent_def kDefaultIndentSize_def Indenting_mk_Indent Block_Out_eq
        Snippet_Out_wrapping_Snippet replicate_numeral_unfold)
  from C7_absorbed_node_is_snapshot [OF store later, of "Suc 0" kPrivate]
  obtain s1 s2 out where
    run: "exec ?s (Add_stmt 0 (Ref (Suc 0)) kPrivate) = Some s1" "exec_all s1 ?later = Some s2"
    and same: "node_Out (s1 0) = Some out" "node_Out (s2 0) = Some out"
    by blast
  from out1 have "node_Out (s1 0) = Some ''{\<newline>  class X {\<newline>  };\<newline>}\<newline>''"
    unfolding run(1) by simp
  with same have "node_Out (s2 0) = Some ''{\<newline>  class X {\<newline>  };\<newline>}\<newline>''"
    by simp
  then have out2: "Option.bind
        (Option.bind (exec ?s (Add_stmt 0 (Ref (Suc 0)) kPrivate)) (\<lambda>s1. exec_all s1 ?later))
        (\<lambda>s2. node_Out (s2 0))
       = Some ''{\<newline>  class X {\<newline>  };\<newline>}\<newline>''"
    unfolding run(1) Option.bind.simps run(2) by simp
  from store later out1 out2 show ?thesis
    by blast
qed

end
